theory Spec2Isabelle
  imports Complex_Main "HOL-Library.Log_Nat" "HOL-Library.Multiset"
begin

section \<open>Data model\<close>

text \<open>
  The rows that the route handlers of \<^verbatim>\<open>src/server.ts\<close> read and write. Identifiers are the
  strings the store generates; a point in time is the number of milliseconds that
  \<^verbatim>\<open>Date.now()\<close> returns. Only the columns that the handlers touch are kept.
\<close>

type_synonym ident = string
type_synonym millis = nat

record user =
  user_id :: ident
  user_role :: string

record student =
  student_id :: ident
  student_userId :: ident

record organizer =
  organizer_id :: ident
  organizer_userId :: ident

record event =
  event_id :: ident
  event_organizerId :: ident
  event_capacity :: nat
  event_status :: string

record booking =
  booking_id :: ident
  booking_studentId :: ident
  booking_eventId :: ident
  booking_status :: string

record ticket =
  ticket_id :: ident
  ticket_bookingId :: ident
  ticket_qrCode :: string
  ticket_isScanned :: bool
  ticket_scannedAt :: "millis option"

record attendance =
  attendance_id :: ident
  attendance_studentId :: ident
  attendance_eventId :: ident

record db =
  users :: "user list"
  students :: "student list"
  organizers :: "organizer list"
  events :: "event list"
  bookings :: "booking list"
  tickets :: "ticket list"
  attendances :: "attendance list"

text \<open>The caller that \<^verbatim>\<open>authenticateToken\<close> leaves in \<^verbatim>\<open>req.user\<close>: the payload of the token.\<close>

record principal =
  p_id :: ident
  p_role :: string

text \<open>A signed token: the payload and the secret it was signed with.\<close>

record jwt =
  jwt_payload :: principal
  jwt_secret :: string

definition jwt_sign :: "principal \<Rightarrow> string \<Rightarrow> jwt" where
  "jwt_sign payload secret = \<lparr>jwt_payload = payload, jwt_secret = secret\<rparr>"

record stats =
  totalEvents :: nat
  totalRegistrations :: nat
  totalRevenue :: nat
  attendanceRate :: rat

text \<open>
  What a handler sends back. \<open>Rejected\<close> stands for an awaited store call whose promise
  rejects: the handler stops there and sends nothing of its own.
\<close>

datatype response =
    SendStatus nat
  | JsonError nat string
  | ScanJson bool "student option"
  | BookingJson booking ticket
  | StatsJson stats
  | AuthJson jwt user
  | Rejected

section \<open>The persistence store\<close>

text \<open>
  Modelled from the spec: the store client and its schema are not part of the sources. The
  store exposes create, read and update of rows keyed by opaque identifiers. A read is a
  search of the table. A write takes the store's reply from the environment: \<open>None\<close> when
  the store refuses the write, \<open>Some i\<close> when it accepts and \<open>i\<close> is the identifier it
  generated. An identifier that is already a key of the table is refused. A new ticket
  has the scanned flag false and no scan time.
\<close>

definition ticket_findUnique :: "db \<Rightarrow> ident \<Rightarrow> ticket option" where
  "ticket_findUnique d i = find (\<lambda>t. ticket_id t = i) (tickets d)"

definition booking_findUnique :: "db \<Rightarrow> ident \<Rightarrow> booking option" where
  "booking_findUnique d i = find (\<lambda>b. booking_id b = i) (bookings d)"

definition student_findUnique :: "db \<Rightarrow> ident \<Rightarrow> student option" where
  "student_findUnique d i = find (\<lambda>s. student_id s = i) (students d)"

definition student_findUnique_userId :: "db \<Rightarrow> ident \<Rightarrow> student option" where
  "student_findUnique_userId d u = find (\<lambda>s. student_userId s = u) (students d)"

definition organizer_findUnique_userId :: "db \<Rightarrow> ident \<Rightarrow> organizer option" where
  "organizer_findUnique_userId d u = find (\<lambda>g. organizer_userId g = u) (organizers d)"

definition ticket_update :: "db \<Rightarrow> bool \<Rightarrow> ident \<Rightarrow> (ticket \<Rightarrow> ticket) \<Rightarrow> db option" where
  "ticket_update d ok i f =
     (if ok \<and> ticket_findUnique d i \<noteq> None
      then Some (d\<lparr>tickets := map (\<lambda>t. if ticket_id t = i then f t else t) (tickets d)\<rparr>)
      else None)"

definition user_create :: "db \<Rightarrow> ident option \<Rightarrow> string \<Rightarrow> (db \<times> user) option" where
  "user_create d reply role =
     (case reply of
        None \<Rightarrow> None
      | Some i \<Rightarrow>
          if i \<in> set (map user_id (users d)) then None
          else let u = \<lparr>user_id = i, user_role = role\<rparr>
               in Some (d\<lparr>users := users d @ [u]\<rparr>, u))"

definition booking_create ::
  "db \<Rightarrow> ident option \<Rightarrow> ident \<Rightarrow> ident \<Rightarrow> string \<Rightarrow> (db \<times> booking) option" where
  "booking_create d reply sid eid st =
     (case reply of
        None \<Rightarrow> None
      | Some i \<Rightarrow>
          if i \<in> set (map booking_id (bookings d)) then None
          else let b = \<lparr>booking_id = i, booking_studentId = sid, booking_eventId = eid,
                         booking_status = st\<rparr>
               in Some (d\<lparr>bookings := bookings d @ [b]\<rparr>, b))"

definition ticket_create ::
  "db \<Rightarrow> ident option \<Rightarrow> ident \<Rightarrow> string \<Rightarrow> (db \<times> ticket) option" where
  "ticket_create d reply bid code =
     (case reply of
        None \<Rightarrow> None
      | Some i \<Rightarrow>
          if i \<in> set (map ticket_id (tickets d)) then None
          else let t = \<lparr>ticket_id = i, ticket_bookingId = bid, ticket_qrCode = code,
                         ticket_isScanned = False, ticket_scannedAt = None\<rparr>
               in Some (d\<lparr>tickets := tickets d @ [t]\<rparr>, t))"

definition attendance_create ::
  "db \<Rightarrow> ident option \<Rightarrow> ident \<Rightarrow> ident \<Rightarrow> (db \<times> attendance) option" where
  "attendance_create d reply sid eid =
     (case reply of
        None \<Rightarrow> None
      | Some i \<Rightarrow>
          if i \<in> set (map attendance_id (attendances d)) then None
          else let a = \<lparr>attendance_id = i, attendance_studentId = sid,
                         attendance_eventId = eid\<rparr>
               in Some (d\<lparr>attendances := attendances d @ [a]\<rparr>, a))"

section \<open>Marking attendance\<close>

text \<open>
  \<^verbatim>\<open>POST /api/organizer/scan\<close>. The arguments after the store are \<^verbatim>\<open>req.user\<close>, the
  \<^verbatim>\<open>ticketId\<close> of the body, the clock, and the store's replies to the update and to the
  insert. The ticket is read together with its booking and the booking's student; the
  handler reads \<^verbatim>\<open>ticket.booking.studentId\<close> after the update, which throws when the
  booking is missing.
\<close>

definition post_organizer_scan ::
  "db \<Rightarrow> principal \<Rightarrow> ident \<Rightarrow> millis \<Rightarrow> bool \<Rightarrow> ident option \<Rightarrow> db \<times> response" where
  "post_organizer_scan d usr ticketId now upd_ok att_reply =
     (if p_role usr \<noteq> ''ORGANIZER'' then (d, SendStatus 403)
      else case ticket_findUnique d ticketId of
        None \<Rightarrow> (d, JsonError 404 ''Ticket not found'')
      | Some tk \<Rightarrow>
          if ticket_isScanned tk then (d, JsonError 400 ''Ticket already scanned'')
          else
            (case ticket_update d upd_ok ticketId
                    (\<lambda>t. t\<lparr>ticket_isScanned := True, ticket_scannedAt := Some now\<rparr>) of
               None \<Rightarrow> (d, Rejected)
             | Some d1 \<Rightarrow>
                 (case booking_findUnique d (ticket_bookingId tk) of
                    None \<Rightarrow> (d1, Rejected)
                  | Some bk \<Rightarrow>
                      (case attendance_create d1 att_reply (booking_studentId bk)
                              (booking_eventId bk) of
                         None \<Rightarrow> (d1, Rejected)
                       | Some (d2, a) \<Rightarrow>
                           (d2, ScanJson True
                                  (student_findUnique d (booking_studentId bk)))))))"

section \<open>Booking and ticket issue\<close>

text \<open>
  The decimal digits that a template literal prints for a non-negative integer such as
  \<^verbatim>\<open>Date.now()\<close>.
\<close>

definition digit_char :: "nat \<Rightarrow> char" where
  "digit_char n = ''0123456789'' ! (n mod 10)"

function show_nat :: "nat \<Rightarrow> string" where
  "show_nat n = (if n < 10 then [digit_char n] else show_nat (n div 10) @ [digit_char n])"
  by pat_completeness auto
termination
  by (relation "measure (\<lambda>n. n)") auto

text \<open>The code of a ticket: \<^verbatim>\<open>`TICKET-${booking.id}-${Date.now()}`\<close>.\<close>

definition qrCode_of :: "ident \<Rightarrow> millis \<Rightarrow> string" where
  "qrCode_of bid now = ''TICKET-'' @ bid @ ''-'' @ show_nat now"

text \<open>
  \<^verbatim>\<open>POST /api/bookings\<close>. The arguments after the store are \<^verbatim>\<open>req.user\<close>, the
  \<^verbatim>\<open>eventId\<close> of the body, the clock, and the store's replies to the two inserts.
\<close>

definition post_bookings ::
  "db \<Rightarrow> principal \<Rightarrow> ident \<Rightarrow> millis \<Rightarrow> ident option \<Rightarrow> ident option \<Rightarrow> db \<times> response" where
  "post_bookings d usr eventId now bk_reply tk_reply =
     (case student_findUnique_userId d (p_id usr) of
        None \<Rightarrow> (d, JsonError 400 ''Not a student'')
      | Some st \<Rightarrow>
          (case booking_create d bk_reply (student_id st) eventId ''PAID'' of
             None \<Rightarrow> (d, Rejected)
           | Some (d1, bk) \<Rightarrow>
               (case ticket_create d1 tk_reply (booking_id bk)
                       (qrCode_of (booking_id bk) now) of
                  None \<Rightarrow> (d1, Rejected)
                | Some (d2, tk) \<Rightarrow> (d2, BookingJson bk tk))))"

section \<open>Guest sign-in\<close>

text \<open>
  \<^verbatim>\<open>POST /api/auth/guest\<close>. The body of the request may carry a role; the handler does not
  read it. The remaining arguments are the signing secret and the store's reply.
\<close>

record guest_body =
  body_role :: "string option"

definition post_auth_guest ::
  "db \<Rightarrow> guest_body \<Rightarrow> string \<Rightarrow> ident option \<Rightarrow> db \<times> response" where
  "post_auth_guest d body secret reply =
     (case user_create d reply ''GUEST'' of
        None \<Rightarrow> (d, Rejected)
      | Some (d1, u) \<Rightarrow>
          (d1, AuthJson (jwt_sign \<lparr>p_id = user_id u, p_role = user_role u\<rparr> secret) u))"

section \<open>Numbers\<close>

text \<open>
  A number of the language is a binary64 value. The finite ones are rationals, and an
  arithmetic operation returns the exact result rounded to the nearest value with a
  53-bit significand, a tie going to the even significand. For a positive \<open>x\<close>,
  \<open>binade x\<close> is the exponent \<open>e\<close> with \<open>2 powi e \<le> x < 2 powi (e + 1)\<close>, and a
  negative number is rounded as its absolute value is. The exponent range is not bounded:
  the handlers only divide one array length by another, non-zero one and multiply the
  quotient by 100, which stays far from overflow and from the subnormal numbers. Array
  lengths are integers below \<open>2 ^ 53\<close> and so are numbers as they stand.
\<close>

definition binade :: "rat \<Rightarrow> int" where
  "binade x = (case quotient_of x of (p, q) \<Rightarrow>
                 let k = bitlen p - bitlen q in if 2 powi k \<le> x then k else k - 1)"

definition round_even :: "rat \<Rightarrow> int" where
  "round_even y = (let n = \<lfloor>y\<rfloor>; r = y - of_int n
                   in if r < 1 / 2 then n else if 1 / 2 < r then n + 1
                      else if even n then n else n + 1)"

definition to_double :: "rat \<Rightarrow> rat" where
  "to_double x = (if x = 0 then 0
                  else let u = 2 powi (binade \<bar>x\<bar> - 52)
                       in sgn x * of_int (round_even (\<bar>x\<bar> / u)) * u)"

definition js_div :: "rat \<Rightarrow> rat \<Rightarrow> rat" where
  "js_div x y = to_double (x / y)"

definition js_mul :: "rat \<Rightarrow> rat \<Rightarrow> rat" where
  "js_mul x y = to_double (x * y)"

section \<open>Organizer statistics\<close>

text \<open>\<^verbatim>\<open>GET /api/organizer/stats\<close>. The handler only reads the store.\<close>

definition get_organizer_stats :: "db \<Rightarrow> principal \<Rightarrow> response" where
  "get_organizer_stats d usr =
     (case organizer_findUnique_userId d (p_id usr) of
        None \<Rightarrow> SendStatus 403
      | Some org \<Rightarrow>
          let evs = filter (\<lambda>e. event_organizerId e = organizer_id org) (events d);
              eventIds = map event_id evs;
              bks = filter (\<lambda>b. booking_eventId b \<in> set eventIds) (bookings d);
              att = filter (\<lambda>a. attendance_eventId a \<in> set eventIds) (attendances d)
          in StatsJson
               \<lparr>totalEvents = length evs,
                totalRegistrations = length bks,
                totalRevenue = foldl (\<lambda>acc curr. acc + 100) 0 bks,
                attendanceRate =
                  (if length bks > 0
                   then js_mul (js_div (of_nat (length att)) (of_nat (length bks))) 100
                   else 0)\<rparr>)"

section \<open>Requests served one after the other\<close>

text \<open>
  A request carries what its handler takes from outside the store: the caller, the body,
  the clock and the store's replies. \<open>serve_all\<close> serves a list of requests in order,
  each on the store that the one before it left.
\<close>

datatype request =
    Scan principal ident millis bool "ident option"
  | Book principal ident millis "ident option" "ident option"
  | Guest guest_body string "ident option"
  | Stats principal

fun serve :: "db \<Rightarrow> request \<Rightarrow> db \<times> response" where
  "serve d (Scan usr ticketId now upd_ok att_reply) =
     post_organizer_scan d usr ticketId now upd_ok att_reply"
| "serve d (Book usr eventId now bk_reply tk_reply) =
     post_bookings d usr eventId now bk_reply tk_reply"
| "serve d (Guest body secret reply) = post_auth_guest d body secret reply"
| "serve d (Stats usr) = (d, get_organizer_stats d usr)"

fun serve_all :: "db \<Rightarrow> request list \<Rightarrow> db \<times> response list" where
  "serve_all d [] = (d, [])"
| "serve_all d (r # rs) =
     (case serve d r of (d1, a) \<Rightarrow>
        (case serve_all d1 rs of (d2, as) \<Rightarrow> (d2, a # as)))"

section \<open>Consistency of the store\<close>

text \<open>
  The tickets are consistent when no two of them belong to the same booking and each
  belongs to a booking of the store. The attendance rows are consistent when each of them
  is matched by a scanned ticket of its own for the same event.
\<close>

definition tickets_wf :: "db \<Rightarrow> bool" where
  "tickets_wf d \<longleftrightarrow>
     distinct (map ticket_bookingId (tickets d)) \<and>
     set (map ticket_bookingId (tickets d)) \<subseteq> set (map booking_id (bookings d))"

definition ticket_event :: "db \<Rightarrow> ticket \<Rightarrow> ident option" where
  "ticket_event d t = map_option booking_eventId (booking_findUnique d (ticket_bookingId t))"

definition scanned_events :: "db \<Rightarrow> ident list" where
  "scanned_events d =
     List.map_filter (\<lambda>t. if ticket_isScanned t then ticket_event d t else None) (tickets d)"

definition store_inv :: "db \<Rightarrow> bool" where
  "store_inv d \<longleftrightarrow>
     tickets_wf d \<and>
     mset (map attendance_eventId (attendances d)) \<subseteq># mset (scanned_events d)"

section \<open>Two scans at the same time\<close>

text \<open>
  The scan handler awaits the store three times: the read of the ticket, the update and
  the insert. Between two of these another request may run. A task holds what one request
  takes from outside; its state says how far the handler has come and what it holds in
  its local variable \<^verbatim>\<open>ticket\<close>, read together with the booking and the student.
\<close>

record scan_task =
  task_user :: principal
  task_ticketId :: ident
  task_now :: millis
  task_upd_ok :: bool
  task_att_reply :: "ident option"

datatype scan_state =
    Received
  | Found ticket "booking option" "student option"
  | Updated ticket "booking option" "student option"
  | Finished response

fun scan_step :: "scan_task \<Rightarrow> db \<times> scan_state \<Rightarrow> db \<times> scan_state" where
  "scan_step k (d, Received) =
     (if p_role (task_user k) \<noteq> ''ORGANIZER'' then (d, Finished (SendStatus 403))
      else case ticket_findUnique d (task_ticketId k) of
        None \<Rightarrow> (d, Finished (JsonError 404 ''Ticket not found''))
      | Some tk \<Rightarrow>
          if ticket_isScanned tk then (d, Finished (JsonError 400 ''Ticket already scanned''))
          else (d, Found tk (booking_findUnique d (ticket_bookingId tk))
                    (case booking_findUnique d (ticket_bookingId tk) of
                       None \<Rightarrow> None
                     | Some bk \<Rightarrow> student_findUnique d (booking_studentId bk))))"
| "scan_step k (d, Found tk bk st) =
     (case ticket_update d (task_upd_ok k) (task_ticketId k)
             (\<lambda>t. t\<lparr>ticket_isScanned := True, ticket_scannedAt := Some (task_now k)\<rparr>) of
        None \<Rightarrow> (d, Finished Rejected)
      | Some d1 \<Rightarrow> (d1, Updated tk bk st))"
| "scan_step k (d, Updated tk None st) = (d, Finished Rejected)"
| "scan_step k (d, Updated tk (Some bk) st) =
     (case attendance_create d (task_att_reply k) (booking_studentId bk) (booking_eventId bk) of
        None \<Rightarrow> (d, Finished Rejected)
      | Some (d2, a) \<Rightarrow> (d2, Finished (ScanJson True st)))"
| "scan_step k (d, Finished r) = (d, Finished r)"

text \<open>
  Two scans in flight: a schedule says, step by step, which of the two moves next
  (\<open>True\<close> for the first).
\<close>

fun interleave ::
  "scan_task \<Rightarrow> scan_task \<Rightarrow> bool list \<Rightarrow> db \<times> scan_state \<times> scan_state \<Rightarrow>
   db \<times> scan_state \<times> scan_state" where
  "interleave k1 k2 [] c = c"
| "interleave k1 k2 (True # sched) (d, s1, s2) =
     (case scan_step k1 (d, s1) of (d', s1') \<Rightarrow> interleave k1 k2 sched (d', s1', s2))"
| "interleave k1 k2 (False # sched) (d, s1, s2) =
     (case scan_step k2 (d, s2) of (d', s2') \<Rightarrow> interleave k1 k2 sched (d', s1, s2'))"

section \<open>Example data\<close>

definition demo_db :: db where
  "demo_db =
     \<lparr>users = [\<lparr>user_id = ''u1'', user_role = ''STUDENT''\<rparr>,
               \<lparr>user_id = ''u2'', user_role = ''ORGANIZER''\<rparr>],
      students = [\<lparr>student_id = ''s1'', student_userId = ''u1''\<rparr>],
      organizers = [\<lparr>organizer_id = ''o1'', organizer_userId = ''u2''\<rparr>],
      events = [\<lparr>event_id = ''e1'', event_organizerId = ''o1'', event_capacity = 1,
                 event_status = ''APPROVED''\<rparr>],
      bookings = [\<lparr>booking_id = ''b1'', booking_studentId = ''s1'', booking_eventId = ''e1'',
                   booking_status = ''PAID''\<rparr>],
      tickets = [\<lparr>ticket_id = ''t1'', ticket_bookingId = ''b1'',
                  ticket_qrCode = ''TICKET-b1-5'', ticket_isScanned = False,
                  ticket_scannedAt = None\<rparr>],
      attendances = []\<rparr>"

definition demo_student_user :: principal where
  "demo_student_user = \<lparr>p_id = ''u1'', p_role = ''STUDENT''\<rparr>"

definition demo_organizer_user :: principal where
  "demo_organizer_user = \<lparr>p_id = ''u2'', p_role = ''ORGANIZER''\<rparr>"

definition demo_db_scanned :: db where
  "demo_db_scanned =
     demo_db\<lparr>tickets := [\<lparr>ticket_id = ''t1'', ticket_bookingId = ''b1'',
                  ticket_qrCode = ''TICKET-b1-5'', ticket_isScanned = True,
                  ticket_scannedAt = Some 7\<rparr>],
               attendances := [\<lparr>attendance_id = ''a1'', attendance_studentId = ''s1'',
                  attendance_eventId = ''e1''\<rparr>]\<rparr>"

definition demo_booking2 :: booking where
  "demo_booking2 = \<lparr>booking_id = ''b2'', booking_studentId = ''s1'', booking_eventId = ''e1'',
                      booking_status = ''PAID''\<rparr>"

definition demo_ticket2 :: ticket where
  "demo_ticket2 = \<lparr>ticket_id = ''t2'', ticket_bookingId = ''b2'',
                     ticket_qrCode = ''TICKET-b2-5'', ticket_isScanned = False,
                     ticket_scannedAt = None\<rparr>"

definition demo_db_booked :: db where
  "demo_db_booked =
     demo_db\<lparr>bookings := bookings demo_db @ [demo_booking2],
              tickets := tickets demo_db @ [demo_ticket2]\<rparr>"

definition demo_db_orphan :: db where
  "demo_db_orphan = demo_db\<lparr>bookings := bookings demo_db @ [demo_booking2]\<rparr>"

definition demo_booking_nowhere :: booking where
  "demo_booking_nowhere = \<lparr>booking_id = ''b2'', booking_studentId = ''s1'',
                             booking_eventId = ''nope'', booking_status = ''PAID''\<rparr>"

definition demo_db_nowhere :: db where
  "demo_db_nowhere =
     demo_db\<lparr>bookings := bookings demo_db @ [demo_booking_nowhere],
              tickets := tickets demo_db @ [demo_ticket2]\<rparr>"

definition demo_scan1 :: scan_task where
  "demo_scan1 = \<lparr>task_user = demo_organizer_user, task_ticketId = ''t1'', task_now = 7,
                   task_upd_ok = True, task_att_reply = Some ''a1''\<rparr>"

definition demo_scan2 :: scan_task where
  "demo_scan2 = \<lparr>task_user = demo_organizer_user, task_ticketId = ''t1'', task_now = 8,
                   task_upd_ok = True, task_att_reply = Some ''a2''\<rparr>"

definition demo_db_twice :: db where
  "demo_db_twice =
     demo_db\<lparr>tickets := [\<lparr>ticket_id = ''t1'', ticket_bookingId = ''b1'',
                  ticket_qrCode = ''TICKET-b1-5'', ticket_isScanned = True,
                  ticket_scannedAt = Some 8\<rparr>],
               attendances := [\<lparr>attendance_id = ''a1'', attendance_studentId = ''s1'',
                  attendance_eventId = ''e1''\<rparr>,
                  \<lparr>attendance_id = ''a2'', attendance_studentId = ''s1'',
                  attendance_eventId = ''e1''\<rparr>]\<rparr>"

definition demo_booking3 :: booking where
  "demo_booking3 = \<lparr>booking_id = ''b3'', booking_studentId = ''s1'', booking_eventId = ''e1'',
                      booking_status = ''PAID''\<rparr>"

definition demo_ticket3 :: ticket where
  "demo_ticket3 = \<lparr>ticket_id = ''t3'', ticket_bookingId = ''b3'',
                     ticket_qrCode = ''TICKET-b3-5'', ticket_isScanned = False,
                     ticket_scannedAt = None\<rparr>"

definition demo_db_booked_twice :: db where
  "demo_db_booked_twice =
     demo_db\<lparr>bookings := bookings demo_db @ [demo_booking2, demo_booking3],
              tickets := tickets demo_db @ [demo_ticket2, demo_ticket3]\<rparr>"

definition demo_two_bookings :: "request list" where
  "demo_two_bookings =
     [Book demo_student_user ''e1'' 5 (Some ''b2'') (Some ''t2''),
      Book demo_student_user ''e1'' 5 (Some ''b3'') (Some ''t3'')]"

definition demo_stats_before :: db where
  "demo_stats_before =
     \<lparr>users = [\<lparr>user_id = ''u1'', user_role = ''STUDENT''\<rparr>,
               \<lparr>user_id = ''u2'', user_role = ''ORGANIZER''\<rparr>,
               \<lparr>user_id = ''u3'', user_role = ''ORGANIZER''\<rparr>],
      students = [\<lparr>student_id = ''s1'', student_userId = ''u1''\<rparr>],
      organizers = [\<lparr>organizer_id = ''o1'', organizer_userId = ''u2''\<rparr>,
                    \<lparr>organizer_id = ''o2'', organizer_userId = ''u3''\<rparr>],
      events =
       [\<lparr>event_id = ''e1'', event_organizerId = ''o1'', event_capacity = 500,
          event_status = ''APPROVED''\<rparr>,
        \<lparr>event_id = ''e2'', event_organizerId = ''o1'', event_capacity = 1000,
          event_status = ''APPROVED''\<rparr>,
        \<lparr>event_id = ''e3'', event_organizerId = ''o2'', event_capacity = 200,
          event_status = ''APPROVED''\<rparr>],
      bookings =
       [\<lparr>booking_id = ''b01'', booking_studentId = ''s1'',
          booking_eventId = ''e1'', booking_status = ''PAID''\<rparr>,
        \<lparr>booking_id = ''b02'', booking_studentId = ''s1'',
          booking_eventId = ''e1'', booking_status = ''PAID''\<rparr>,
        \<lparr>booking_id = ''b03'', booking_studentId = ''s1'',
          booking_eventId = ''e1'', booking_status = ''PAID''\<rparr>,
        \<lparr>booking_id = ''b04'', booking_studentId = ''s1'',
          booking_eventId = ''e1'', booking_status = ''PAID''\<rparr>,
        \<lparr>booking_id = ''b05'', booking_studentId = ''s1'',
          booking_eventId = ''e1'', booking_status = ''PAID''\<rparr>,
        \<lparr>booking_id = ''b06'', booking_studentId = ''s1'',
          booking_eventId = ''e1'', booking_status = ''PAID''\<rparr>,
        \<lparr>booking_id = ''b07'', booking_studentId = ''s1'',
          booking_eventId = ''e2'', booking_status = ''PAID''\<rparr>,
        \<lparr>booking_id = ''b08'', booking_studentId = ''s1'',
          booking_eventId = ''e2'', booking_status = ''PAID''\<rparr>,
        \<lparr>booking_id = ''b09'', booking_studentId = ''s1'',
          booking_eventId = ''e2'', booking_status = ''PAID''\<rparr>,
        \<lparr>booking_id = ''b10'', booking_studentId = ''s1'',
          booking_eventId = ''e2'', booking_status = ''PAID''\<rparr>,
        \<lparr>booking_id = ''b11'', booking_studentId = ''s1'',
          booking_eventId = ''e3'', booking_status = ''PAID''\<rparr>],
      tickets =
       [\<lparr>ticket_id = ''t01'', ticket_bookingId = ''b01'', ticket_qrCode = ''TICKET-b01-5'',
          ticket_isScanned = True, ticket_scannedAt = Some 6\<rparr>,
        \<lparr>ticket_id = ''t02'', ticket_bookingId = ''b02'', ticket_qrCode = ''TICKET-b02-5'',
          ticket_isScanned = True, ticket_scannedAt = Some 6\<rparr>,
        \<lparr>ticket_id = ''t03'', ticket_bookingId = ''b03'', ticket_qrCode = ''TICKET-b03-5'',
          ticket_isScanned = False, ticket_scannedAt = None\<rparr>,
        \<lparr>ticket_id = ''t04'', ticket_bookingId = ''b04'', ticket_qrCode = ''TICKET-b04-5'',
          ticket_isScanned = False, ticket_scannedAt = None\<rparr>,
        \<lparr>ticket_id = ''t05'', ticket_bookingId = ''b05'', ticket_qrCode = ''TICKET-b05-5'',
          ticket_isScanned = False, ticket_scannedAt = None\<rparr>,
        \<lparr>ticket_id = ''t06'', ticket_bookingId = ''b06'', ticket_qrCode = ''TICKET-b06-5'',
          ticket_isScanned = False, ticket_scannedAt = None\<rparr>,
        \<lparr>ticket_id = ''t07'', ticket_bookingId = ''b07'', ticket_qrCode = ''TICKET-b07-5'',
          ticket_isScanned = True, ticket_scannedAt = Some 6\<rparr>,
        \<lparr>ticket_id = ''t08'', ticket_bookingId = ''b08'', ticket_qrCode = ''TICKET-b08-5'',
          ticket_isScanned = False, ticket_scannedAt = None\<rparr>,
        \<lparr>ticket_id = ''t09'', ticket_bookingId = ''b09'', ticket_qrCode = ''TICKET-b09-5'',
          ticket_isScanned = False, ticket_scannedAt = None\<rparr>,
        \<lparr>ticket_id = ''t10'', ticket_bookingId = ''b10'', ticket_qrCode = ''TICKET-b10-5'',
          ticket_isScanned = False, ticket_scannedAt = None\<rparr>,
        \<lparr>ticket_id = ''t11'', ticket_bookingId = ''b11'', ticket_qrCode = ''TICKET-b11-5'',
          ticket_isScanned = True, ticket_scannedAt = Some 6\<rparr>],
      attendances =
       [\<lparr>attendance_id = ''a1'', attendance_studentId = ''s1'',
          attendance_eventId = ''e1''\<rparr>,
        \<lparr>attendance_id = ''a2'', attendance_studentId = ''s1'',
          attendance_eventId = ''e1''\<rparr>,
        \<lparr>attendance_id = ''a3'', attendance_studentId = ''s1'',
          attendance_eventId = ''e2''\<rparr>,
        \<lparr>attendance_id = ''a4'', attendance_studentId = ''s1'',
          attendance_eventId = ''e3''\<rparr>]\<rparr>"

definition demo_stats_db :: db where
  "demo_stats_db =
     demo_stats_before
       \<lparr>tickets := map (\<lambda>t. if ticket_id t = ''t08''
                             then t\<lparr>ticket_isScanned := True, ticket_scannedAt := Some 9\<rparr>
                             else t) (tickets demo_stats_before),
        attendances := attendances demo_stats_before @
          [\<lparr>attendance_id = ''a5'', attendance_studentId = ''s1'',
            attendance_eventId = ''e2''\<rparr>]\<rparr>"

section \<open>Evaluation and store lemmas\<close>

declare show_nat.simps [simp del]

lemma find_map_same_id:
  assumes "\<And>t. ticket_id (f t) = ticket_id t"
  shows "find (\<lambda>t. ticket_id t = i) (map (\<lambda>t. if ticket_id t = i then f t else t) ts)
           = map_option f (find (\<lambda>t. ticket_id t = i) ts)"
  using assms by (induction ts) auto

lemma ticket_findUnique_after_update:
  assumes "ticket_update d ok i f = Some d1" and "\<And>t. ticket_id (f t) = ticket_id t"
  shows "ticket_findUnique d1 i = map_option f (ticket_findUnique d i)"
  using assms
  by (auto simp: ticket_update_def ticket_findUnique_def find_map_same_id split: if_splits)

lemma scan_rejects_scanned:
  assumes "ticket_findUnique d i = Some tk" and "ticket_isScanned tk"
  shows "post_organizer_scan d usr i now ok rep =
           (d, if p_role usr = ''ORGANIZER'' then JsonError 400 ''Ticket already scanned''
               else SendStatus 403)"
  using assms by (simp add: post_organizer_scan_def)

lemma scan_success_cases:
  assumes "post_organizer_scan d usr i now ok rep = (d1, ScanJson s st)"
  obtains tk bk a d0 where
    "p_role usr = ''ORGANIZER''"
    "ticket_findUnique d i = Some tk" "\<not> ticket_isScanned tk"
    "ticket_update d ok i (\<lambda>t. t\<lparr>ticket_isScanned := True, ticket_scannedAt := Some now\<rparr>) = Some d0"
    "booking_findUnique d (ticket_bookingId tk) = Some bk"
    "attendance_create d0 rep (booking_studentId bk) (booking_eventId bk) = Some (d1, a)"
    "s = True" "st = student_findUnique d (booking_studentId bk)"
  using assms
  by (auto simp: post_organizer_scan_def split: if_splits option.splits prod.splits)

lemma attendance_create_eq:
  assumes "attendance_create d rep sid eid = Some (d1, a)"
  shows "d1 = d\<lparr>attendances := attendances d @ [a]\<rparr>"
    and "attendance_studentId a = sid" and "attendance_eventId a = eid"
    and "rep = Some (attendance_id a)" and "attendance_id a \<notin> attendance_id ` set (attendances d)"
  using assms
  by (auto simp: attendance_create_def Let_def split: option.splits if_splits)

lemma ticket_update_eq:
  assumes "ticket_update d ok i f = Some d1"
  shows "d1 = d\<lparr>tickets := map (\<lambda>t. if ticket_id t = i then f t else t) (tickets d)\<rparr>"
  using assms by (auto simp: ticket_update_def split: if_splits)

lemmas demo_defs = demo_db_def demo_db_scanned_def demo_organizer_user_def demo_student_user_def

lemmas store_defs = ticket_findUnique_def booking_findUnique_def student_findUnique_def
  student_findUnique_userId_def organizer_findUnique_userId_def ticket_update_def
  user_create_def booking_create_def ticket_create_def attendance_create_def Let_def

lemma scan_success_eq:
  assumes "p_role usr = ''ORGANIZER''"
    and "ticket_findUnique d i = Some tk" and "\<not> ticket_isScanned tk"
    and "booking_findUnique d (ticket_bookingId tk) = Some bk"
    and "aid \<notin> attendance_id ` set (attendances d)"
  shows "post_organizer_scan d usr i now True (Some aid) =
     (d\<lparr>tickets := map (\<lambda>t. if ticket_id t = i
                                then t\<lparr>ticket_isScanned := True, ticket_scannedAt := Some now\<rparr>
                                else t) (tickets d),
        attendances := attendances d @
           [\<lparr>attendance_id = aid, attendance_studentId = booking_studentId bk,
             attendance_eventId = booking_eventId bk\<rparr>]\<rparr>,
      ScanJson True (student_findUnique d (booking_studentId bk)))"
  using assms
  by (simp add: post_organizer_scan_def ticket_update_def attendance_create_def Let_def)

section \<open>Scanning a ticket twice\<close>

text \<open>
  Claim C1. A ticket whose scanned flag is set cannot be redeemed again: the handler
  answers 400 "Ticket already scanned" to an organizer (403 to any other caller) and
  leaves the store as it was, so no attendance row is added and the ticket keeps its
  state. Hence, when a scan succeeds, the ticket went from unscanned to scanned, exactly
  one attendance row was appended, and every later scan of the same ticket is rejected
  without touching the store.
\<close>

theorem scan_exactly_once:
  shows "(\<forall>tk. ticket_findUnique d i = Some tk \<and> ticket_isScanned tk \<longrightarrow>
            post_organizer_scan d usr i now ok rep =
              (d, if p_role usr = ''ORGANIZER'' then JsonError 400 ''Ticket already scanned''
                  else SendStatus 403))
       \<and> (\<forall>d1 s st. post_organizer_scan d usr i now ok rep = (d1, ScanJson s st) \<longrightarrow>
            (\<exists>tk. ticket_findUnique d i = Some tk \<and> \<not> ticket_isScanned tk \<and>
                  ticket_findUnique d1 i =
                    Some (tk\<lparr>ticket_isScanned := True, ticket_scannedAt := Some now\<rparr>)) \<and>
            (\<exists>a. attendances d1 = attendances d @ [a]) \<and>
            (\<forall>usr' now' ok' rep'.
               post_organizer_scan d1 usr' i now' ok' rep' =
                 (d1, if p_role usr' = ''ORGANIZER''
                      then JsonError 400 ''Ticket already scanned'' else SendStatus 403)))"
proof (intro conjI allI impI)
  fix tk assume "ticket_findUnique d i = Some tk \<and> ticket_isScanned tk"
  then show "post_organizer_scan d usr i now ok rep =
              (d, if p_role usr = ''ORGANIZER'' then JsonError 400 ''Ticket already scanned''
                  else SendStatus 403)"
    using scan_rejects_scanned by blast
next
  fix d1 s st
  assume run: "post_organizer_scan d usr i now ok rep = (d1, ScanJson s st)"
  from run obtain tk and bk :: booking and a d0 where
    tk: "ticket_findUnique d i = Some tk" "\<not> ticket_isScanned tk"
    and upd: "ticket_update d ok i
                (\<lambda>t. t\<lparr>ticket_isScanned := True, ticket_scannedAt := Some now\<rparr>) = Some d0"
    and att: "attendance_create d0 rep (booking_studentId bk) (booking_eventId bk) = Some (d1, a)"
    by (elim scan_success_cases) blast
  have d1: "d1 = d0\<lparr>attendances := attendances d0 @ [a]\<rparr>"
    using att by (rule attendance_create_eq)
  have f0: "ticket_findUnique d0 i =
              Some (tk\<lparr>ticket_isScanned := True, ticket_scannedAt := Some now\<rparr>)"
    using ticket_findUnique_after_update [OF upd] tk by simp
  then have f1: "ticket_findUnique d1 i =
              Some (tk\<lparr>ticket_isScanned := True, ticket_scannedAt := Some now\<rparr>)"
    by (simp add: d1 ticket_findUnique_def)
  show "\<exists>tk. ticket_findUnique d i = Some tk \<and> \<not> ticket_isScanned tk \<and>
                  ticket_findUnique d1 i =
                    Some (tk\<lparr>ticket_isScanned := True, ticket_scannedAt := Some now\<rparr>)"
    using tk f1 by blast
  show "\<exists>a. attendances d1 = attendances d @ [a]"
    using d1 ticket_update_eq [OF upd] by simp
  fix usr' now' ok' rep'
  show "post_organizer_scan d1 usr' i now' ok' rep' =
                 (d1, if p_role usr' = ''ORGANIZER''
                      then JsonError 400 ''Ticket already scanned'' else SendStatus 403)"
    by (rule scan_rejects_scanned [OF f1]) simp
qed

theorem scan_exactly_once_witness:
  "post_organizer_scan demo_db demo_organizer_user ''t1'' 7 True (Some ''a1'') =
     (demo_db_scanned, ScanJson True (Some \<lparr>student_id = ''s1'', student_userId = ''u1''\<rparr>))
   \<and> post_organizer_scan demo_db_scanned demo_organizer_user ''t1'' 9 True (Some ''a2'') =
     (demo_db_scanned, JsonError 400 ''Ticket already scanned'')
   \<and> length (attendances demo_db_scanned) = 1"
proof -
  have first: "post_organizer_scan demo_db demo_organizer_user ''t1'' 7 True (Some ''a1'') =
     (demo_db_scanned, ScanJson True (Some \<lparr>student_id = ''s1'', student_userId = ''u1''\<rparr>))"
    by (simp add: post_organizer_scan_def demo_defs store_defs)
  have role: "p_role demo_organizer_user = ''ORGANIZER''"
    by (simp add: demo_organizer_user_def)
  note T = scan_exactly_once [of demo_db "''t1''" demo_organizer_user 7 True "Some ''a1''",
      THEN conjunct2, rule_format, OF first]
  have "post_organizer_scan demo_db_scanned demo_organizer_user ''t1'' 9 True (Some ''a2'') =
     (demo_db_scanned, JsonError 400 ''Ticket already scanned'')"
    using T [THEN conjunct2, THEN conjunct2] role
    by simp
  moreover have "length (attendances demo_db_scanned) = 1"
    by (simp add: demo_defs)
  ultimately show ?thesis using first by simp
qed

section \<open>Scanning an unscanned ticket\<close>

text \<open>
  Claim C2. For an existing ticket that is not yet scanned and whose booking is in the
  store, a scan by a caller with the organizer role succeeds when the store accepts the
  update and the insert: the ticket is found afterwards with the scanned flag set and the
  scan time recorded, exactly one attendance row is appended, carrying the student and
  the event of the ticket's booking, and the answer is success together with the
  booking's student. Bookings and the other tickets are untouched.
\<close>

theorem scan_unscanned_succeeds:
  assumes "p_role usr = ''ORGANIZER''"
    and "ticket_findUnique d i = Some tk" and "\<not> ticket_isScanned tk"
    and "booking_findUnique d (ticket_bookingId tk) = Some bk"
    and "aid \<notin> attendance_id ` set (attendances d)"
  shows "\<exists>d1. post_organizer_scan d usr i now True (Some aid) =
               (d1, ScanJson True (student_findUnique d (booking_studentId bk)))
          \<and> ticket_findUnique d1 i =
               Some (tk\<lparr>ticket_isScanned := True, ticket_scannedAt := Some now\<rparr>)
          \<and> attendances d1 = attendances d @
               [\<lparr>attendance_id = aid, attendance_studentId = booking_studentId bk,
                 attendance_eventId = booking_eventId bk\<rparr>]
          \<and> bookings d1 = bookings d \<and> map ticket_id (tickets d1) = map ticket_id (tickets d)
          \<and> (\<forall>t \<in> set (tickets d). ticket_id t \<noteq> i \<longrightarrow> t \<in> set (tickets d1))"
proof -
  let ?f = "\<lambda>t. t\<lparr>ticket_isScanned := True, ticket_scannedAt := Some now\<rparr>"
  let ?d1 = "d\<lparr>tickets := map (\<lambda>t. if ticket_id t = i then ?f t else t) (tickets d),
        attendances := attendances d @
           [\<lparr>attendance_id = aid, attendance_studentId = booking_studentId bk,
             attendance_eventId = booking_eventId bk\<rparr>]\<rparr>"
  have run: "post_organizer_scan d usr i now True (Some aid) =
               (?d1, ScanJson True (student_findUnique d (booking_studentId bk)))"
    using assms by (rule scan_success_eq)
  have "ticket_findUnique ?d1 i = map_option ?f (ticket_findUnique d i)"
    by (simp add: ticket_findUnique_def find_map_same_id)
  then have found: "ticket_findUnique ?d1 i = Some (?f tk)"
    using assms(2) by simp
  have ids: "map ticket_id (tickets ?d1) = map ticket_id (tickets d)"
    by (simp add: comp_def if_distrib cong: if_cong)
  have others: "\<forall>t \<in> set (tickets d). ticket_id t \<noteq> i \<longrightarrow> t \<in> set (tickets ?d1)"
    by force
  show ?thesis
    using run found ids others by (intro exI [of _ ?d1]) simp
qed

theorem scan_unscanned_succeeds_witness:
  "p_role demo_organizer_user = ''ORGANIZER''
   \<and> ticket_findUnique demo_db ''t1'' = Some (hd (tickets demo_db))
   \<and> ticket_isScanned (hd (tickets demo_db)) = False
   \<and> booking_findUnique demo_db (ticket_bookingId (hd (tickets demo_db))) =
        Some (hd (bookings demo_db))
   \<and> ''a1'' \<notin> attendance_id ` set (attendances demo_db)
   \<and> (\<exists>d1. post_organizer_scan demo_db demo_organizer_user ''t1'' 7 True (Some ''a1'') =
               (d1, ScanJson True (Some \<lparr>student_id = ''s1'', student_userId = ''u1''\<rparr>))
          \<and> ticket_findUnique d1 ''t1'' =
               Some \<lparr>ticket_id = ''t1'', ticket_bookingId = ''b1'',
                  ticket_qrCode = ''TICKET-b1-5'', ticket_isScanned = True,
                  ticket_scannedAt = Some 7\<rparr>
          \<and> attendances d1 =
               [\<lparr>attendance_id = ''a1'', attendance_studentId = ''s1'',
                 attendance_eventId = ''e1''\<rparr>])"
proof -
  have h1: "p_role demo_organizer_user = ''ORGANIZER''"
    by (simp add: demo_defs)
  have h2: "ticket_findUnique demo_db ''t1'' = Some (hd (tickets demo_db))"
    by (simp add: demo_defs store_defs)
  have h3: "\<not> ticket_isScanned (hd (tickets demo_db))"
    by (simp add: demo_defs)
  have h4: "booking_findUnique demo_db (ticket_bookingId (hd (tickets demo_db))) =
        Some (hd (bookings demo_db))"
    by (simp add: demo_defs store_defs)
  have h5: "''a1'' \<notin> attendance_id ` set (attendances demo_db)"
    by (simp add: demo_defs)
  from scan_unscanned_succeeds [OF h1 h2 h3 h4 h5, of 7]
  obtain d1 where
    "post_organizer_scan demo_db demo_organizer_user ''t1'' 7 True (Some ''a1'') =
       (d1, ScanJson True (student_findUnique demo_db (booking_studentId (hd (bookings demo_db)))))"
    "ticket_findUnique d1 ''t1'' =
       Some ((hd (tickets demo_db))\<lparr>ticket_isScanned := True, ticket_scannedAt := Some 7\<rparr>)"
    "attendances d1 = attendances demo_db @
               [\<lparr>attendance_id = ''a1'',
                 attendance_studentId = booking_studentId (hd (bookings demo_db)),
                 attendance_eventId = booking_eventId (hd (bookings demo_db))\<rparr>]"
    by blast
  moreover have "student_findUnique demo_db (booking_studentId (hd (bookings demo_db))) =
      Some \<lparr>student_id = ''s1'', student_userId = ''u1''\<rparr>"
    by (simp add: demo_defs store_defs)
  moreover have "(hd (tickets demo_db))\<lparr>ticket_isScanned := True, ticket_scannedAt := Some 7\<rparr>
      = \<lparr>ticket_id = ''t1'', ticket_bookingId = ''b1'',
                  ticket_qrCode = ''TICKET-b1-5'', ticket_isScanned = True,
                  ticket_scannedAt = Some 7\<rparr>"
    by (simp add: demo_defs)
  moreover have "attendances demo_db = []" "hd (bookings demo_db) =
     \<lparr>booking_id = ''b1'', booking_studentId = ''s1'', booking_eventId = ''e1'',
                   booking_status = ''PAID''\<rparr>"
    by (simp_all add: demo_defs)
  ultimately show ?thesis
    using h1 h2 h3 h4 h5 by simp
qed

lemmas demo_defs2 = demo_defs demo_booking2_def demo_ticket2_def demo_db_booked_def

lemma show_nat_digit: "n < 10 \<Longrightarrow> show_nat n = [digit_char n]"
  by (simp add: show_nat.simps)

lemma show_nat_5: "show_nat 5 = ''5''"
  by (simp add: show_nat_digit digit_char_def)

lemma demo_booking_run:
  "post_bookings demo_db demo_student_user ''e1'' 5 (Some ''b2'') (Some ''t2'') =
     (demo_db_booked, BookingJson demo_booking2 demo_ticket2)"
  by (simp add: post_bookings_def demo_defs2 store_defs qrCode_of_def show_nat_5)

section \<open>Store lemmas for bookings\<close>

lemma post_bookings_cases:
  "post_bookings d usr eventId now br tr =
     (case student_findUnique_userId d (p_id usr) of
        None \<Rightarrow> (d, JsonError 400 ''Not a student'')
      | Some st \<Rightarrow>
         (case br of
            None \<Rightarrow> (d, Rejected)
          | Some bid \<Rightarrow>
             if bid \<in> booking_id ` set (bookings d) then (d, Rejected)
             else let bk = \<lparr>booking_id = bid, booking_studentId = student_id st,
                              booking_eventId = eventId, booking_status = ''PAID''\<rparr>;
                      d1 = d\<lparr>bookings := bookings d @ [bk]\<rparr>
                  in (case tr of
                        None \<Rightarrow> (d1, Rejected)
                      | Some tid \<Rightarrow>
                          if tid \<in> ticket_id ` set (tickets d) then (d1, Rejected)
                          else let tk = \<lparr>ticket_id = tid, ticket_bookingId = bid,
                                           ticket_qrCode = qrCode_of bid now,
                                           ticket_isScanned = False, ticket_scannedAt = None\<rparr>
                               in (d1\<lparr>tickets := tickets d @ [tk]\<rparr>, BookingJson bk tk))))"
  by (simp add: post_bookings_def booking_create_def ticket_create_def Let_def
      split: option.splits)

lemma post_bookings_success:
  assumes "post_bookings d usr eventId now br tr = (d2, BookingJson bk tk)"
  obtains st where
    "student_findUnique_userId d (p_id usr) = Some st"
    "br = Some (booking_id bk)" "booking_id bk \<notin> booking_id ` set (bookings d)"
    "bk = \<lparr>booking_id = booking_id bk, booking_studentId = student_id st,
           booking_eventId = eventId, booking_status = ''PAID''\<rparr>"
    "tr = Some (ticket_id tk)" "ticket_id tk \<notin> ticket_id ` set (tickets d)"
    "tk = \<lparr>ticket_id = ticket_id tk, ticket_bookingId = booking_id bk,
           ticket_qrCode = qrCode_of (booking_id bk) now,
           ticket_isScanned = False, ticket_scannedAt = None\<rparr>"
    "d2 = d\<lparr>bookings := bookings d @ [bk], tickets := tickets d @ [tk]\<rparr>"
  using assms unfolding post_bookings_cases
  by (auto simp: Let_def split: option.splits if_splits)

lemma post_bookings_forms:
  "(\<exists>bk tk. snd (post_bookings d usr eventId now br tr) = BookingJson bk tk)
   \<or> snd (post_bookings d usr eventId now br tr) = Rejected
   \<or> snd (post_bookings d usr eventId now br tr) = JsonError 400 ''Not a student''"
  unfolding post_bookings_cases by (auto simp: Let_def split: option.splits)

lemma post_bookings_accept:
  assumes "student_findUnique_userId d (p_id usr) = Some st"
    and "bid \<notin> booking_id ` set (bookings d)" and "tid \<notin> ticket_id ` set (tickets d)"
  shows "post_bookings d usr eventId now (Some bid) (Some tid) =
     (d\<lparr>bookings := bookings d @
           [\<lparr>booking_id = bid, booking_studentId = student_id st,
             booking_eventId = eventId, booking_status = ''PAID''\<rparr>],
        tickets := tickets d @
           [\<lparr>ticket_id = tid, ticket_bookingId = bid, ticket_qrCode = qrCode_of bid now,
             ticket_isScanned = False, ticket_scannedAt = None\<rparr>]\<rparr>,
      BookingJson
        \<lparr>booking_id = bid, booking_studentId = student_id st,
          booking_eventId = eventId, booking_status = ''PAID''\<rparr>
        \<lparr>ticket_id = tid, ticket_bookingId = bid, ticket_qrCode = qrCode_of bid now,
          ticket_isScanned = False, ticket_scannedAt = None\<rparr>)"
  using assms unfolding post_bookings_cases by (simp add: Let_def)

section \<open>Booking and ticket are two writes\<close>

text \<open>
  With the ticket insert refused, the booking inserted just before stays in the store and
  no ticket refers to it.
\<close>

theorem booking_orphan_counterexample:
  "post_bookings demo_db demo_student_user ''e1'' 5 (Some ''b2'') None =
     (demo_db_orphan, Rejected)
   \<and> demo_booking2 \<in> set (bookings demo_db_orphan)
   \<and> filter (\<lambda>t. ticket_bookingId t = booking_id demo_booking2) (tickets demo_db_orphan) = []"
  by (simp add: post_bookings_def demo_defs2 demo_db_orphan_def store_defs)

text \<open>
  Claim C3, as amended. The handler inserts the booking and then the ticket as two
  separate writes, with no transaction and no compensating delete. A booking answer is
  sent only when both inserts were accepted, and then exactly the booking and one ticket
  referring to it were appended. When the booking insert is refused nothing is written.
  When the booking insert is accepted and the ticket insert is refused, the booking stays
  in the store without a ticket and the caller gets no answer from the handler.
\<close>

theorem booking_ticket_two_writes:
  assumes "student_findUnique_userId d (p_id usr) = Some st"
  shows "(\<forall>d' bk tk. post_bookings d usr eventId now br tr = (d', BookingJson bk tk) \<longrightarrow>
            d' = d\<lparr>bookings := bookings d @ [bk], tickets := tickets d @ [tk]\<rparr> \<and>
            ticket_bookingId tk = booking_id bk)
       \<and> ((br = None \<or> (\<exists>bid. br = Some bid \<and> bid \<in> booking_id ` set (bookings d))) \<longrightarrow>
            post_bookings d usr eventId now br tr = (d, Rejected))
       \<and> (\<forall>bid. br = Some bid \<and> bid \<notin> booking_id ` set (bookings d) \<and>
              (tr = None \<or> (\<exists>tid. tr = Some tid \<and> tid \<in> ticket_id ` set (tickets d))) \<longrightarrow>
            post_bookings d usr eventId now br tr =
              (d\<lparr>bookings := bookings d @
                    [\<lparr>booking_id = bid, booking_studentId = student_id st,
                      booking_eventId = eventId, booking_status = ''PAID''\<rparr>]\<rparr>, Rejected))"
proof -
  have success: "\<forall>d' bk tk. post_bookings d usr eventId now br tr = (d', BookingJson bk tk) \<longrightarrow>
            d' = d\<lparr>bookings := bookings d @ [bk], tickets := tickets d @ [tk]\<rparr> \<and>
            ticket_bookingId tk = booking_id bk"
    unfolding post_bookings_cases by (auto simp: Let_def split: option.splits if_splits)
  have no_booking:
    "(br = None \<or> (\<exists>bid. br = Some bid \<and> bid \<in> booking_id ` set (bookings d))) \<longrightarrow>
            post_bookings d usr eventId now br tr = (d, Rejected)"
    using assms unfolding post_bookings_cases by auto
  have no_ticket: "\<forall>bid. br = Some bid \<and> bid \<notin> booking_id ` set (bookings d) \<and>
              (tr = None \<or> (\<exists>tid. tr = Some tid \<and> tid \<in> ticket_id ` set (tickets d))) \<longrightarrow>
            post_bookings d usr eventId now br tr =
              (d\<lparr>bookings := bookings d @
                    [\<lparr>booking_id = bid, booking_studentId = student_id st,
                      booking_eventId = eventId, booking_status = ''PAID''\<rparr>]\<rparr>, Rejected)"
    using assms unfolding post_bookings_cases by (auto simp: Let_def)
  show ?thesis
    using success no_booking no_ticket by (intro conjI)
qed

theorem booking_ticket_two_writes_witness:
  "student_findUnique_userId demo_db (p_id demo_student_user) =
      Some \<lparr>student_id = ''s1'', student_userId = ''u1''\<rparr>
   \<and> ''b2'' \<notin> booking_id ` set (bookings demo_db)
   \<and> post_bookings demo_db demo_student_user ''e1'' 5 (Some ''b2'') None =
       (demo_db_orphan, Rejected)
   \<and> post_bookings demo_db demo_student_user ''e1'' 5 (Some ''b1'') (Some ''t2'') =
       (demo_db, Rejected)"
proof -
  have st: "student_findUnique_userId demo_db (p_id demo_student_user) =
      Some \<lparr>student_id = ''s1'', student_userId = ''u1''\<rparr>"
    by (simp add: demo_defs store_defs)
  have fresh: "''b2'' \<notin> booking_id ` set (bookings demo_db)"
    by (simp add: demo_defs)
  have used: "''b1'' \<in> booking_id ` set (bookings demo_db)"
    by (simp add: demo_defs)
  have orphan: "demo_db_orphan = demo_db\<lparr>bookings := bookings demo_db @
                    [\<lparr>booking_id = ''b2'', booking_studentId = ''s1'',
                      booking_eventId = ''e1'', booking_status = ''PAID''\<rparr>]\<rparr>"
    by (simp add: demo_db_orphan_def demo_booking2_def)
  have "post_bookings demo_db demo_student_user ''e1'' 5 (Some ''b2'') None =
       (demo_db_orphan, Rejected)"
    using booking_ticket_two_writes [OF st, where br = "Some ''b2''" and tr = None
          and eventId = "''e1''" and now = 5,
        THEN conjunct2, THEN conjunct2, rule_format, of "''b2''"] fresh orphan
    by simp
  moreover have "post_bookings demo_db demo_student_user ''e1'' 5 (Some ''b1'') (Some ''t2'') =
       (demo_db, Rejected)"
    using booking_ticket_two_writes [OF st, where br = "Some ''b1''"
          and tr = "Some ''t2''" and eventId = "''e1''" and now = 5,
        THEN conjunct2, THEN conjunct1] used
    by simp
  ultimately show ?thesis using st fresh by simp
qed

section \<open>Bookings for an event that does not exist\<close>

text \<open>
  An event identifier that no event carries is booked like any other when the store
  accepts the inserts; when the store refuses, the handler sends nothing of its own.
\<close>

theorem booking_unknown_event_counterexample:
  "''nope'' \<notin> event_id ` set (events demo_db)
   \<and> post_bookings demo_db demo_student_user ''nope'' 5 (Some ''b2'') (Some ''t2'') =
       (demo_db_nowhere, BookingJson demo_booking_nowhere demo_ticket2)
   \<and> post_bookings demo_db demo_student_user ''nope'' 5 None (Some ''t2'') =
       (demo_db, Rejected)"
  by (simp add: post_bookings_def demo_defs2 demo_db_nowhere_def demo_booking_nowhere_def
      store_defs qrCode_of_def show_nat_5)

lemma post_bookings_events:
  "post_bookings (d\<lparr>events := evs\<rparr>) usr eventId now br tr =
     (fst (post_bookings d usr eventId now br tr)\<lparr>events := evs\<rparr>,
      snd (post_bookings d usr eventId now br tr))"
  unfolding post_bookings_cases
  by (simp add: student_findUnique_userId_def Let_def split: option.splits)

text \<open>
  Claim C4, as amended. The handler never looks the event up: its result does not depend
  on the table of events, its only answers are the booking, "Not a student" (400) and a
  refused store write, and for a caller with a student profile and a store that accepts
  both inserts the booking and its ticket are created for whatever event identifier was
  sent, existing or not.
\<close>

theorem booking_never_looks_event_up:
  "post_bookings (d\<lparr>events := evs\<rparr>) usr eventId now br tr =
     (fst (post_bookings d usr eventId now br tr)\<lparr>events := evs\<rparr>,
      snd (post_bookings d usr eventId now br tr))
   \<and> ((\<exists>bk tk. snd (post_bookings d usr eventId now br tr) = BookingJson bk tk)
      \<or> snd (post_bookings d usr eventId now br tr) = Rejected
      \<or> snd (post_bookings d usr eventId now br tr) = JsonError 400 ''Not a student'')
   \<and> (\<forall>st bid tid.
         student_findUnique_userId d (p_id usr) = Some st \<and>
         bid \<notin> booking_id ` set (bookings d) \<and> tid \<notin> ticket_id ` set (tickets d) \<longrightarrow>
         (\<exists>d' bk tk. post_bookings d usr eventId now (Some bid) (Some tid) =
                        (d', BookingJson bk tk) \<and>
                      booking_eventId bk = eventId \<and> bk \<in> set (bookings d') \<and>
                      tk \<in> set (tickets d')))"
proof -
  have accept: "\<forall>st bid tid.
         student_findUnique_userId d (p_id usr) = Some st \<and>
         bid \<notin> booking_id ` set (bookings d) \<and> tid \<notin> ticket_id ` set (tickets d) \<longrightarrow>
         (\<exists>d' bk tk. post_bookings d usr eventId now (Some bid) (Some tid) =
                        (d', BookingJson bk tk) \<and>
                      booking_eventId bk = eventId \<and> bk \<in> set (bookings d') \<and>
                      tk \<in> set (tickets d'))"
    by (auto simp: post_bookings_accept)
  show ?thesis
    using post_bookings_events post_bookings_forms accept by (intro conjI)
qed

theorem booking_never_looks_event_up_witness:
  "student_findUnique_userId demo_db (p_id demo_student_user) =
      Some \<lparr>student_id = ''s1'', student_userId = ''u1''\<rparr>
   \<and> ''b2'' \<notin> booking_id ` set (bookings demo_db)
   \<and> ''t2'' \<notin> ticket_id ` set (tickets demo_db)
   \<and> ''nope'' \<notin> event_id ` set (events demo_db)
   \<and> (\<exists>d' bk tk. post_bookings demo_db demo_student_user ''nope'' 5 (Some ''b2'') (Some ''t2'') =
                        (d', BookingJson bk tk) \<and>
                      booking_eventId bk = ''nope'' \<and> bk \<in> set (bookings d') \<and>
                      tk \<in> set (tickets d'))"
proof -
  have st: "student_findUnique_userId demo_db (p_id demo_student_user) =
      Some \<lparr>student_id = ''s1'', student_userId = ''u1''\<rparr>"
    by (simp add: demo_defs store_defs)
  have fresh: "''b2'' \<notin> booking_id ` set (bookings demo_db)"
    "''t2'' \<notin> ticket_id ` set (tickets demo_db)"
    by (simp_all add: demo_defs)
  have nope: "''nope'' \<notin> event_id ` set (events demo_db)"
    by (simp add: demo_defs)
  have "\<exists>d' bk tk. post_bookings demo_db demo_student_user ''nope'' 5 (Some ''b2'') (Some ''t2'') =
                        (d', BookingJson bk tk) \<and>
                      booking_eventId bk = ''nope'' \<and> bk \<in> set (bookings d') \<and>
                      tk \<in> set (tickets d')"
    using booking_never_looks_event_up [where d = demo_db and usr = demo_student_user
        and eventId = "''nope''" and now = 5, THEN conjunct2, THEN conjunct2, rule_format,
        of "\<lparr>student_id = ''s1'', student_userId = ''u1''\<rparr>" "''b2''" "''t2''"]
      st fresh
    by simp
  then show ?thesis using st fresh nope by simp
qed

section \<open>No capacity check\<close>

text \<open>
  Claim C5. For a caller with a student profile and a store that accepts the two inserts,
  the booking is accepted and a ticket is minted, whatever the events table says and
  however many bookings the event already has: the number of bookings of the event grows
  by one each time.
\<close>

theorem booking_without_capacity_check:
  assumes "student_findUnique_userId d (p_id usr) = Some st"
    and "bid \<notin> booking_id ` set (bookings d)" and "tid \<notin> ticket_id ` set (tickets d)"
  shows "\<exists>d' bk tk.
           post_bookings d usr eventId now (Some bid) (Some tid) = (d', BookingJson bk tk)
         \<and> booking_eventId bk = eventId
         \<and> bookings d' = bookings d @ [bk] \<and> tickets d' = tickets d @ [tk]
         \<and> ticket_bookingId tk = booking_id bk
         \<and> length (filter (\<lambda>b. booking_eventId b = eventId) (bookings d')) =
             Suc (length (filter (\<lambda>b. booking_eventId b = eventId) (bookings d)))
         \<and> (\<forall>evs. post_bookings (d\<lparr>events := evs\<rparr>) usr eventId now (Some bid) (Some tid) =
                     (d'\<lparr>events := evs\<rparr>, BookingJson bk tk))"
  by (simp add: post_bookings_events post_bookings_accept [OF assms])

theorem booking_without_capacity_check_witness:
  "student_findUnique_userId demo_db (p_id demo_student_user) =
      Some \<lparr>student_id = ''s1'', student_userId = ''u1''\<rparr>
   \<and> ''b2'' \<notin> booking_id ` set (bookings demo_db)
   \<and> ''t2'' \<notin> ticket_id ` set (tickets demo_db)
   \<and> map event_capacity (filter (\<lambda>e. event_id e = ''e1'') (events demo_db)) = [1]
   \<and> length (filter (\<lambda>b. booking_eventId b = ''e1'') (bookings demo_db)) = 1
   \<and> (\<exists>d' bk tk.
           post_bookings demo_db demo_student_user ''e1'' 5 (Some ''b2'') (Some ''t2'') =
             (d', BookingJson bk tk)
         \<and> length (filter (\<lambda>b. booking_eventId b = ''e1'') (bookings d')) = 2)"
proof -
  have st: "student_findUnique_userId demo_db (p_id demo_student_user) =
      Some \<lparr>student_id = ''s1'', student_userId = ''u1''\<rparr>"
    by (simp add: demo_defs store_defs)
  have fresh: "''b2'' \<notin> booking_id ` set (bookings demo_db)"
    "''t2'' \<notin> ticket_id ` set (tickets demo_db)"
    by (simp_all add: demo_defs)
  have full: "map event_capacity (filter (\<lambda>e. event_id e = ''e1'') (events demo_db)) = [1]"
    "length (filter (\<lambda>b. booking_eventId b = ''e1'') (bookings demo_db)) = 1"
    by (simp_all add: demo_defs)
  have "\<exists>d' bk tk.
           post_bookings demo_db demo_student_user ''e1'' 5 (Some ''b2'') (Some ''t2'') =
             (d', BookingJson bk tk)
         \<and> length (filter (\<lambda>b. booking_eventId b = ''e1'') (bookings d')) = 2"
    using booking_without_capacity_check [OF st fresh, where eventId = "''e1''" and now = 5]
      full(2)
    by auto
  then show ?thesis using st fresh full by simp
qed

section \<open>What the scanner looks up\<close>

text \<open>
  The code minted by a booking is not what the scan looks up: presented as the ticket
  identifier it finds nothing.
\<close>

theorem scan_by_code_counterexample:
  "post_bookings demo_db demo_student_user ''e1'' 5 (Some ''b2'') (Some ''t2'') =
     (demo_db_booked, BookingJson demo_booking2 demo_ticket2)
   \<and> ticket_qrCode demo_ticket2 = ''TICKET-b2-5''
   \<and> post_organizer_scan demo_db_booked demo_organizer_user (ticket_qrCode demo_ticket2)
        7 True (Some ''a1'') =
       (demo_db_booked, JsonError 404 ''Ticket not found'')"
  by (simp add: demo_booking_run)
     (simp add: post_organizer_scan_def demo_defs2 store_defs)

lemma find_append_key:
  assumes "k \<notin> f ` set xs" and "f y = k"
  shows "find (\<lambda>x. f x = k) (xs @ [y]) = Some y"
  using assms by (induction xs) auto

lemma find_map_comp: "find P (map h xs) = map_option h (find (\<lambda>x. P (h x)) xs)"
  by (induction xs) auto

lemma scan_recode:
  "post_organizer_scan (d\<lparr>tickets := map (\<lambda>t. t\<lparr>ticket_qrCode := g (ticket_id t)\<rparr>) (tickets d)\<rparr>)
      usr i now ok rep =
     (let d' = fst (post_organizer_scan d usr i now ok rep)
      in d'\<lparr>tickets := map (\<lambda>t. t\<lparr>ticket_qrCode := g (ticket_id t)\<rparr>) (tickets d')\<rparr>,
      snd (post_organizer_scan d usr i now ok rep))"
proof -
  let ?h = "\<lambda>t. t\<lparr>ticket_qrCode := g (ticket_id t)\<rparr>"
  let ?d = "d\<lparr>tickets := map ?h (tickets d)\<rparr>"
  have f: "ticket_findUnique ?d i = map_option ?h (ticket_findUnique d i)"
    by (simp add: ticket_findUnique_def find_map_comp)
  have b: "booking_findUnique ?d k = booking_findUnique d k" for k
    by (simp add: booking_findUnique_def)
  have s: "student_findUnique ?d k = student_findUnique d k" for k
    by (simp add: student_findUnique_def)
  show ?thesis
    by (cases "ticket_findUnique d i")
       (auto simp: post_organizer_scan_def f b s ticket_update_def attendance_create_def
          Let_def comp_def split: option.splits)
qed

text \<open>
  Claim C9, as amended. The scan identifies the ticket by its identifier, the primary key
  sent as \<^verbatim>\<open>ticketId\<close>, not by its code. For a ticket minted by a successful
  booking, a scan by an organizer with the ticket's identifier succeeds when the store
  accepts the writes; a value that is no ticket's identifier is answered 404; and the
  answer of a scan is the same whatever codes the tickets carry.
\<close>

theorem scan_by_ticket_id:
  assumes "post_bookings d usr eventId now br tr = (d1, BookingJson bk tk)"
    and "p_role org = ''ORGANIZER''"
    and "aid \<notin> attendance_id ` set (attendances d1)"
  shows "(\<exists>d2. post_organizer_scan d1 org (ticket_id tk) now' True (Some aid) =
                 (d2, ScanJson True (student_findUnique d1 (booking_studentId bk)))
              \<and> ticket_findUnique d2 (ticket_id tk) =
                   Some (tk\<lparr>ticket_isScanned := True, ticket_scannedAt := Some now'\<rparr>)
              \<and> attendances d2 = attendances d1 @
                   [\<lparr>attendance_id = aid, attendance_studentId = booking_studentId bk,
                     attendance_eventId = booking_eventId bk\<rparr>])
       \<and> (\<forall>x ok rep. x \<notin> ticket_id ` set (tickets d1) \<longrightarrow>
             post_organizer_scan d1 org x now' ok rep = (d1, JsonError 404 ''Ticket not found''))
       \<and> (\<forall>g x ok rep.
             snd (post_organizer_scan
                    (d1\<lparr>tickets := map (\<lambda>t. t\<lparr>ticket_qrCode := g (ticket_id t)\<rparr>) (tickets d1)\<rparr>)
                    org x now' ok rep) =
             snd (post_organizer_scan d1 org x now' ok rep))"
proof -
  from assms(1) have
    bfresh: "booking_id bk \<notin> booking_id ` set (bookings d)" and
    tfresh: "ticket_id tk \<notin> ticket_id ` set (tickets d)" and
    tk: "ticket_bookingId tk = booking_id bk" "\<not> ticket_isScanned tk" and
    d1: "d1 = d\<lparr>bookings := bookings d @ [bk], tickets := tickets d @ [tk]\<rparr>"
    by (elim post_bookings_success; simp; metis ticket.select_convs)+
  have ft: "ticket_findUnique d1 (ticket_id tk) = Some tk"
    using tfresh by (simp add: d1 ticket_findUnique_def find_append_key)
  have fb: "booking_findUnique d1 (ticket_bookingId tk) = Some bk"
    using bfresh by (simp add: d1 tk booking_findUnique_def find_append_key)
  let ?f = "\<lambda>t. t\<lparr>ticket_isScanned := True, ticket_scannedAt := Some now'\<rparr>"
  let ?d2 = "d1\<lparr>tickets := map (\<lambda>t. if ticket_id t = ticket_id tk then ?f t else t) (tickets d1),
        attendances := attendances d1 @
           [\<lparr>attendance_id = aid, attendance_studentId = booking_studentId bk,
             attendance_eventId = booking_eventId bk\<rparr>]\<rparr>"
  have run: "post_organizer_scan d1 org (ticket_id tk) now' True (Some aid) =
               (?d2, ScanJson True (student_findUnique d1 (booking_studentId bk)))"
    using assms(2) ft tk(2) fb assms(3) by (rule scan_success_eq)
  have "ticket_findUnique ?d2 (ticket_id tk) = map_option ?f (ticket_findUnique d1 (ticket_id tk))"
    by (simp add: ticket_findUnique_def find_map_same_id)
  then have found: "ticket_findUnique ?d2 (ticket_id tk) = Some (?f tk)"
    using ft by simp
  have first: "\<exists>d2. post_organizer_scan d1 org (ticket_id tk) now' True (Some aid) =
                 (d2, ScanJson True (student_findUnique d1 (booking_studentId bk)))
              \<and> ticket_findUnique d2 (ticket_id tk) = Some (?f tk)
              \<and> attendances d2 = attendances d1 @
                   [\<lparr>attendance_id = aid, attendance_studentId = booking_studentId bk,
                     attendance_eventId = booking_eventId bk\<rparr>]"
    using run found by (intro exI [of _ ?d2]) simp
  have missing: "\<forall>x ok rep. x \<notin> ticket_id ` set (tickets d1) \<longrightarrow>
             post_organizer_scan d1 org x now' ok rep = (d1, JsonError 404 ''Ticket not found'')"
  proof (intro allI impI)
    fix x ok rep assume "x \<notin> ticket_id ` set (tickets d1)"
    then have "ticket_findUnique d1 x = None"
      by (auto simp: ticket_findUnique_def find_None_iff)
    then show "post_organizer_scan d1 org x now' ok rep = (d1, JsonError 404 ''Ticket not found'')"
      using assms(2) by (simp add: post_organizer_scan_def)
  qed
  have codes: "\<forall>g x ok rep.
             snd (post_organizer_scan
                    (d1\<lparr>tickets := map (\<lambda>t. t\<lparr>ticket_qrCode := g (ticket_id t)\<rparr>) (tickets d1)\<rparr>)
                    org x now' ok rep) =
             snd (post_organizer_scan d1 org x now' ok rep)"
    by (simp add: scan_recode)
  show ?thesis
    using first missing codes by (intro conjI)
qed

theorem scan_by_ticket_id_witness:
  "post_bookings demo_db demo_student_user ''e1'' 5 (Some ''b2'') (Some ''t2'') =
     (demo_db_booked, BookingJson demo_booking2 demo_ticket2)
   \<and> p_role demo_organizer_user = ''ORGANIZER''
   \<and> ''a1'' \<notin> attendance_id ` set (attendances demo_db_booked)
   \<and> ''TICKET-b2-5'' \<notin> ticket_id ` set (tickets demo_db_booked)
   \<and> (\<exists>d2. post_organizer_scan demo_db_booked demo_organizer_user (ticket_id demo_ticket2)
               7 True (Some ''a1'') =
               (d2, ScanJson True (Some \<lparr>student_id = ''s1'', student_userId = ''u1''\<rparr>)))
   \<and> post_organizer_scan demo_db_booked demo_organizer_user ''TICKET-b2-5'' 7 True (Some ''a1'')
       = (demo_db_booked, JsonError 404 ''Ticket not found'')"
proof -
  have role: "p_role demo_organizer_user = ''ORGANIZER''"
    by (simp add: demo_defs)
  have fresh: "''a1'' \<notin> attendance_id ` set (attendances demo_db_booked)"
    by (simp add: demo_defs2)
  have nocode: "''TICKET-b2-5'' \<notin> ticket_id ` set (tickets demo_db_booked)"
    by (simp add: demo_defs2)
  have st: "student_findUnique demo_db_booked (booking_studentId demo_booking2) =
      Some \<lparr>student_id = ''s1'', student_userId = ''u1''\<rparr>"
    by (simp add: demo_defs2 store_defs)
  note T = scan_by_ticket_id [OF demo_booking_run role fresh, where now' = 7]
  have "\<exists>d2. post_organizer_scan demo_db_booked demo_organizer_user (ticket_id demo_ticket2)
               7 True (Some ''a1'') =
               (d2, ScanJson True (Some \<lparr>student_id = ''s1'', student_userId = ''u1''\<rparr>))"
    using T [THEN conjunct1] st by auto
  moreover have "post_organizer_scan demo_db_booked demo_organizer_user ''TICKET-b2-5'' 7 True
       (Some ''a1'') = (demo_db_booked, JsonError 404 ''Ticket not found'')"
    using T [THEN conjunct2, THEN conjunct1, rule_format, OF nocode] by simp
  ultimately show ?thesis
    using demo_booking_run role fresh nocode by simp
qed

section \<open>The role of a guest\<close>

text \<open>
  Claim C10. The guest sign-in does not read the body of the request. Either the store
  refuses the insert and nothing is created, or exactly one user is appended whose role is
  GUEST, and the payload of the returned token carries that user's identifier and the role
  GUEST.
\<close>

theorem guest_role_is_fixed:
  "post_auth_guest d body secret reply = post_auth_guest d body' secret reply
   \<and> ((\<exists>d1 tok u. post_auth_guest d body secret reply = (d1, AuthJson tok u) \<and>
          user_role u = ''GUEST'' \<and> jwt_payload tok = \<lparr>p_id = user_id u, p_role = ''GUEST''\<rparr> \<and>
          users d1 = users d @ [u] \<and> reply = Some (user_id u))
      \<or> (post_auth_guest d body secret reply = (d, Rejected) \<and>
          (reply = None \<or> (\<exists>i. reply = Some i \<and> i \<in> user_id ` set (users d)))))"
  by (cases reply)
     (auto simp: post_auth_guest_def user_create_def jwt_sign_def Let_def)

theorem guest_role_is_fixed_witness:
  "post_auth_guest demo_db \<lparr>body_role = Some ''ADMIN''\<rparr> ''supersecret'' (Some ''u3'') =
     (demo_db\<lparr>users := users demo_db @ [\<lparr>user_id = ''u3'', user_role = ''GUEST''\<rparr>]\<rparr>,
      AuthJson \<lparr>jwt_payload = \<lparr>p_id = ''u3'', p_role = ''GUEST''\<rparr>,
                 jwt_secret = ''supersecret''\<rparr>
               \<lparr>user_id = ''u3'', user_role = ''GUEST''\<rparr>)
   \<and> post_auth_guest demo_db \<lparr>body_role = None\<rparr> ''supersecret'' (Some ''u3'') =
       post_auth_guest demo_db \<lparr>body_role = Some ''ADMIN''\<rparr> ''supersecret'' (Some ''u3'')"
proof -
  have "post_auth_guest demo_db \<lparr>body_role = None\<rparr> ''supersecret'' (Some ''u3'') =
       post_auth_guest demo_db \<lparr>body_role = Some ''ADMIN''\<rparr> ''supersecret'' (Some ''u3'')"
    using guest_role_is_fixed [where d = demo_db and body = "\<lparr>body_role = None\<rparr>"
        and body' = "\<lparr>body_role = Some ''ADMIN''\<rparr>" and secret = "''supersecret''"
        and reply = "Some ''u3''", THEN conjunct1] .
  moreover have
    "post_auth_guest demo_db \<lparr>body_role = Some ''ADMIN''\<rparr> ''supersecret'' (Some ''u3'') =
     (demo_db\<lparr>users := users demo_db @ [\<lparr>user_id = ''u3'', user_role = ''GUEST''\<rparr>]\<rparr>,
      AuthJson \<lparr>jwt_payload = \<lparr>p_id = ''u3'', p_role = ''GUEST''\<rparr>,
                 jwt_secret = ''supersecret''\<rparr>
               \<lparr>user_id = ''u3'', user_role = ''GUEST''\<rparr>)"
    by (simp add: post_auth_guest_def user_create_def jwt_sign_def demo_defs Let_def)
  ultimately show ?thesis by simp
qed

section \<open>Ticket codes\<close>

text \<open>
  The digits of the clock contain no dash, so the last dash of a code separates the
  booking's identifier from the clock: the code determines the booking.
\<close>

lemma digit_char_not_dash: "CHR ''-'' \<noteq> digit_char n"
proof -
  have "n mod 10 < length ''0123456789''" by simp
  then have "''0123456789'' ! (n mod 10) \<in> set ''0123456789''" by (rule nth_mem)
  then show ?thesis unfolding digit_char_def by auto
qed

lemma show_nat_no_dash: "CHR ''-'' \<notin> set (show_nat n)"
proof (induction n rule: show_nat.induct)
  case (1 n)
  show ?case
  proof (cases "n < 10")
    case True
    then show ?thesis using digit_char_not_dash [of n] by (simp add: show_nat_digit)
  next
    case False
    then have "show_nat n = show_nat (n div 10) @ [digit_char n]"
      by (subst show_nat.simps) simp
    then show ?thesis using 1 False digit_char_not_dash [of n] by simp
  qed
qed

lemma split_at_first:
  assumes "xs @ c # ys = xs' @ c # ys'" and "c \<notin> set xs" and "c \<notin> set xs'"
  shows "xs = xs' \<and> ys = ys'"
  using assms
proof (induction xs arbitrary: xs')
  case Nil
  then show ?case by (cases xs') auto
next
  case (Cons x xs)
  then show ?case by (cases xs') auto
qed

lemma split_at_last_dash:
  assumes "a @ CHR ''-'' # s = b @ CHR ''-'' # t"
    and "CHR ''-'' \<notin> set s" and "CHR ''-'' \<notin> set t"
  shows "a = b \<and> s = t"
proof -
  have "rev (a @ CHR ''-'' # s) = rev (b @ CHR ''-'' # t)"
    using assms(1) by simp
  then have "rev s @ CHR ''-'' # rev a = rev t @ CHR ''-'' # rev b"
    by simp
  moreover have "CHR ''-'' \<notin> set (rev s)" "CHR ''-'' \<notin> set (rev t)"
    using assms by simp_all
  ultimately have "rev s = rev t \<and> rev a = rev b"
    by (rule split_at_first)
  then show ?thesis by simp
qed

lemma qrCode_of_inj:
  assumes "qrCode_of b n = qrCode_of b' n'"
  shows "b = b'" and "show_nat n = show_nat n'"
  using split_at_last_dash [of b "show_nat n" b' "show_nat n'"] assms show_nat_no_dash
  by (simp_all add: qrCode_of_def)

section \<open>What a request changes\<close>

lemma scan_effect:
  assumes "post_organizer_scan d usr i now ok rep = (d', r)"
  shows "bookings d' = bookings d"
    and "map ticket_bookingId (tickets d') = map ticket_bookingId (tickets d)"
    and "map ticket_qrCode (tickets d') = map ticket_qrCode (tickets d)"
    and "r \<noteq> BookingJson bk tk"
  using assms
  by (auto simp: post_organizer_scan_def ticket_update_def attendance_create_def Let_def
      comp_def if_distrib [of ticket_bookingId] if_distrib [of ticket_qrCode]
      split: if_splits option.splits cong: if_cong)

lemma guest_effect:
  assumes "post_auth_guest d body secret reply = (d', r)"
  shows "bookings d' = bookings d" and "tickets d' = tickets d"
    and "attendances d' = attendances d" and "r \<noteq> BookingJson bk tk"
  using assms
  by (auto simp: post_auth_guest_def user_create_def Let_def split: option.splits if_splits)

lemma scan_not_booking: "post_organizer_scan d usr i now ok rep \<noteq> (d', BookingJson bk tk)"
  using scan_effect(4) by blast

lemma guest_not_booking: "post_auth_guest d body secret reply \<noteq> (d', BookingJson bk tk)"
  using guest_effect(4) by blast

lemma booking_effect:
  assumes "post_bookings d usr eventId now br tr = (d', r)"
  shows "(\<exists>ys. bookings d' = bookings d @ ys)"
    and "(tickets d' = tickets d \<and> (\<forall>bk tk. r \<noteq> BookingJson bk tk))
         \<or> (\<exists>bk tk. r = BookingJson bk tk \<and> tickets d' = tickets d @ [tk] \<and>
                bookings d' = bookings d @ [bk] \<and>
                ticket_bookingId tk = booking_id bk \<and>
                ticket_qrCode tk = qrCode_of (booking_id bk) now \<and>
                booking_id bk \<notin> booking_id ` set (bookings d))"
    and "attendances d' = attendances d"
  using assms unfolding post_bookings_cases
  by (auto simp: Let_def split: option.splits if_splits)

lemma serve_bookings_grow:
  assumes "serve d r = (d', a)"
  shows "\<exists>ys. bookings d' = bookings d @ ys"
proof (cases r)
  case (Scan usr i now ok rep)
  then show ?thesis using assms scan_effect(1) by auto
next
  case (Book usr e now br tr)
  then show ?thesis using assms booking_effect(1) by auto
next
  case (Guest body secret reply)
  then show ?thesis using assms guest_effect(1) by auto
next
  case (Stats usr)
  then show ?thesis using assms by auto
qed

lemma serve_booking_answer:
  assumes "serve d r = (d', BookingJson bk tk)"
  shows "booking_id bk \<notin> booking_id ` set (bookings d)"
    and "bookings d' = bookings d @ [bk]" and "tickets d' = tickets d @ [tk]"
    and "ticket_bookingId tk = booking_id bk"
    and "\<exists>n. ticket_qrCode tk = qrCode_of (booking_id bk) n"
proof -
  have "booking_id bk \<notin> booking_id ` set (bookings d) \<and>
        bookings d' = bookings d @ [bk] \<and> tickets d' = tickets d @ [tk] \<and>
        ticket_bookingId tk = booking_id bk \<and>
        (\<exists>n. ticket_qrCode tk = qrCode_of (booking_id bk) n)"
  proof (cases r)
    case (Scan usr i now ok rep)
    then show ?thesis using assms scan_not_booking by auto
  next
    case (Book usr e now br tr)
    then have "post_bookings d usr e now br tr = (d', BookingJson bk tk)" using assms by simp
    from booking_effect(2) [OF this] show ?thesis by auto
  next
    case (Guest body secret reply)
    then show ?thesis using assms guest_not_booking by auto
  next
    case (Stats usr)
    then show ?thesis using assms by (auto simp: get_organizer_stats_def Let_def split: option.splits)
  qed
  then show "booking_id bk \<notin> booking_id ` set (bookings d)"
    and "bookings d' = bookings d @ [bk]" and "tickets d' = tickets d @ [tk]"
    and "ticket_bookingId tk = booking_id bk"
    and "\<exists>n. ticket_qrCode tk = qrCode_of (booking_id bk) n"
    by blast+
qed

lemma serve_ticket_refs_grow:
  assumes "serve d r = (d', a)"
  shows "\<exists>zs. map ticket_bookingId (tickets d') = map ticket_bookingId (tickets d) @ zs"
proof (cases r)
  case (Scan usr i now ok rep)
  then show ?thesis using assms scan_effect(2) by auto
next
  case (Book usr e now br tr)
  then have "post_bookings d usr e now br tr = (d', a)" using assms by simp
  from booking_effect(2) [OF this] show ?thesis by auto
next
  case (Guest body secret reply)
  then show ?thesis using assms guest_effect(2) by auto
next
  case (Stats usr)
  then show ?thesis using assms by auto
qed

lemma serve_tickets_wf:
  assumes "tickets_wf d" and "serve d r = (d', a)"
  shows "tickets_wf d'"
proof (cases r)
  case (Scan usr i now ok rep)
  then show ?thesis using assms scan_effect(1,2) [of d usr i now ok rep d' a]
    by (simp add: tickets_wf_def)
next
  case (Book usr e now br tr)
  then have run: "post_bookings d usr e now br tr = (d', a)" using assms by simp
  obtain ys where ys: "bookings d' = bookings d @ ys" using booking_effect(1) [OF run] by blast
  from booking_effect(2) [OF run] show ?thesis
  proof
    assume "tickets d' = tickets d \<and> (\<forall>bk tk. a \<noteq> BookingJson bk tk)"
    then show ?thesis using assms(1) ys by (auto simp: tickets_wf_def)
  next
    assume "\<exists>bk tk. a = BookingJson bk tk \<and> tickets d' = tickets d @ [tk] \<and>
                bookings d' = bookings d @ [bk] \<and>
                ticket_bookingId tk = booking_id bk \<and>
                ticket_qrCode tk = qrCode_of (booking_id bk) now \<and>
                booking_id bk \<notin> booking_id ` set (bookings d)"
    then obtain bk tk where new: "tickets d' = tickets d @ [tk]" "bookings d' = bookings d @ [bk]"
      "ticket_bookingId tk = booking_id bk" "booking_id bk \<notin> booking_id ` set (bookings d)"
      by blast
    have sub: "ticket_bookingId ` set (tickets d) \<subseteq> booking_id ` set (bookings d)"
      and dis: "distinct (map ticket_bookingId (tickets d))"
      using assms(1) by (simp_all add: tickets_wf_def)
    have "ticket_bookingId tk \<notin> ticket_bookingId ` set (tickets d)"
      using sub new(3,4) by auto
    then have "distinct (map ticket_bookingId (tickets d'))"
      using dis new(1) by simp
    moreover have "ticket_bookingId ` set (tickets d') \<subseteq> booking_id ` set (bookings d')"
      using sub new(1,2,3) by auto
    ultimately show ?thesis by (simp add: tickets_wf_def)
  qed
next
  case (Guest body secret reply)
  then show ?thesis using assms guest_effect(1,2) [of d body secret reply d' a]
    by (simp add: tickets_wf_def)
next
  case (Stats usr)
  then show ?thesis using assms by auto
qed

lemma serve_all_Cons:
  assumes "serve_all d (r # rs) = (d', as)"
  obtains d1 a as' where "serve d r = (d1, a)" "serve_all d1 rs = (d', as')" "as = a # as'"
  using assms by (auto split: prod.splits)

lemma serve_all_bookings_grow:
  "serve_all d rs = (d', as) \<Longrightarrow> \<exists>ys. bookings d' = bookings d @ ys"
proof (induction rs arbitrary: d as)
  case Nil
  then show ?case by simp
next
  case (Cons r rs)
  from Cons.prems obtain d1 a as' where
    s: "serve d r = (d1, a)" "serve_all d1 rs = (d', as')" by (rule serve_all_Cons)
  from serve_bookings_grow [OF s(1)] Cons.IH [OF s(2)] show ?case by auto
qed

lemma serve_all_ticket_refs_grow:
  "serve_all d rs = (d', as) \<Longrightarrow>
   \<exists>zs. map ticket_bookingId (tickets d') = map ticket_bookingId (tickets d) @ zs"
proof (induction rs arbitrary: d as)
  case Nil
  then show ?case by simp
next
  case (Cons r rs)
  from Cons.prems obtain d1 a as' where
    s: "serve d r = (d1, a)" "serve_all d1 rs = (d', as')" by (rule serve_all_Cons)
  from serve_ticket_refs_grow [OF s(1)] Cons.IH [OF s(2)] show ?case by auto
qed

lemma serve_all_tickets_wf:
  "tickets_wf d \<Longrightarrow> serve_all d rs = (d', as) \<Longrightarrow> tickets_wf d'"
proof (induction rs arbitrary: d as)
  case Nil
  then show ?case by simp
next
  case (Cons r rs)
  from Cons.prems(2) obtain d1 a as' where
    s: "serve d r = (d1, a)" "serve_all d1 rs = (d', as')" by (rule serve_all_Cons)
  from serve_tickets_wf [OF Cons.prems(1) s(1)] Cons.IH s(2) show ?case by blast
qed

lemma serve_all_booking_answer:
  "serve_all d rs = (d', as) \<Longrightarrow> BookingJson bk tk \<in> set as \<Longrightarrow>
   booking_id bk \<notin> booking_id ` set (bookings d) \<and>
   booking_id bk \<in> set (map ticket_bookingId (tickets d')) \<and>
   ticket_bookingId tk = booking_id bk \<and>
   (\<exists>n. ticket_qrCode tk = qrCode_of (booking_id bk) n)"
proof (induction rs arbitrary: d as)
  case Nil
  then show ?case by simp
next
  case (Cons r rs)
  from Cons.prems(1) obtain d1 a as' where
    s: "serve d r = (d1, a)" "serve_all d1 rs = (d', as')" "as = a # as'"
    by (rule serve_all_Cons)
  show ?case
  proof (cases "a = BookingJson bk tk")
    case True
    note ans = serve_booking_answer [OF s(1) [unfolded True]]
    obtain zs where "map ticket_bookingId (tickets d') = map ticket_bookingId (tickets d1) @ zs"
      using serve_all_ticket_refs_grow [OF s(2)] by blast
    then have "booking_id bk \<in> set (map ticket_bookingId (tickets d'))"
      using ans(3,4) by simp
    then show ?thesis using ans by blast
  next
    case False
    then have "BookingJson bk tk \<in> set as'" using Cons.prems(2) s(3) by simp
    from Cons.IH [OF s(2) this] have
      ih: "booking_id bk \<notin> booking_id ` set (bookings d1)"
        "booking_id bk \<in> set (map ticket_bookingId (tickets d'))"
        "ticket_bookingId tk = booking_id bk"
        "\<exists>n. ticket_qrCode tk = qrCode_of (booking_id bk) n"
      by blast+
    obtain ys where "bookings d1 = bookings d @ ys" using serve_bookings_grow [OF s(1)] by blast
    then have "booking_id bk \<notin> booking_id ` set (bookings d)" using ih(1) by auto
    then show ?thesis using ih by blast
  qed
qed

lemma serve_all_codes_differ:
  "serve_all d rs = (d', as) \<Longrightarrow> i < j \<Longrightarrow> j < length as \<Longrightarrow>
   as ! i = BookingJson bk1 tk1 \<Longrightarrow> as ! j = BookingJson bk2 tk2 \<Longrightarrow>
   booking_id bk1 \<noteq> booking_id bk2 \<and> ticket_qrCode tk1 \<noteq> ticket_qrCode tk2"
proof (induction rs arbitrary: d as i j)
  case Nil
  then show ?case by simp
next
  case (Cons r rs)
  from Cons.prems(1) obtain d1 a as' where
    s: "serve d r = (d1, a)" "serve_all d1 rs = (d', as')" "as = a # as'"
    by (rule serve_all_Cons)
  obtain j' where j: "j = Suc j'" using Cons.prems(2) by (cases j) auto
  have j': "j' < length as'" "as' ! j' = BookingJson bk2 tk2"
    using Cons.prems(3,5) s(3) j by auto
  show ?case
  proof (cases i)
    case 0
    then have a: "a = BookingJson bk1 tk1" using Cons.prems(4) s(3) by simp
    note first = serve_booking_answer [OF s(1) [unfolded a]]
    have "BookingJson bk2 tk2 \<in> set as'" using j' by (metis nth_mem)
    from serve_all_booking_answer [OF s(2) this] obtain n2 where
      later: "booking_id bk2 \<notin> booking_id ` set (bookings d1)"
        "ticket_qrCode tk2 = qrCode_of (booking_id bk2) n2"
      by blast
    have ids: "booking_id bk1 \<noteq> booking_id bk2" using first(2) later(1) by auto
    obtain n1 where "ticket_qrCode tk1 = qrCode_of (booking_id bk1) n1" using first(5) by blast
    then have "ticket_qrCode tk1 \<noteq> ticket_qrCode tk2"
      using ids later(2) qrCode_of_inj(1) by metis
    then show ?thesis using ids by simp
  next
    case (Suc i')
    then have "i' < j'" "as' ! i' = BookingJson bk1 tk1"
      using Cons.prems(2,4) s(3) j by auto
    from Cons.IH [OF s(2) this(1) j'(1) this(2) j'(2)] show ?thesis .
  qed
qed

lemma one_reference:
  assumes "distinct (map f xs)" and "k \<in> set (map f xs)"
  shows "length (filter (\<lambda>x. f x = k) xs) = 1"
  using assms
proof (induction xs)
  case Nil
  then show ?case by simp
next
  case (Cons x xs)
  show ?case
  proof (cases "f x = k")
    case True
    then have "k \<notin> f ` set xs" using Cons.prems(1) by auto
    then have "filter (\<lambda>x. f x = k) xs = []" by (auto simp: filter_empty_conv)
    then show ?thesis using True by simp
  next
    case False
    then show ?thesis using Cons by auto
  qed
qed

text \<open>
  Claim C6. In every sequence of requests served one after the other, from any store, two
  different successful bookings return tickets with different codes; and when the tickets
  of the starting store are consistent, every booking returned has exactly one ticket
  referring to it in the final store.
\<close>

theorem ticket_codes_unique:
  assumes "serve_all d rs = (d', as)"
  shows "(\<forall>i j bk1 tk1 bk2 tk2.
            i < j \<and> j < length as \<and> as ! i = BookingJson bk1 tk1 \<and>
            as ! j = BookingJson bk2 tk2 \<longrightarrow>
            ticket_qrCode tk1 \<noteq> ticket_qrCode tk2)
       \<and> (tickets_wf d \<longrightarrow>
            (\<forall>bk tk. BookingJson bk tk \<in> set as \<longrightarrow>
               length (filter (\<lambda>t. ticket_bookingId t = booking_id bk) (tickets d')) = 1))"
proof -
  have pairs: "\<forall>i j bk1 tk1 bk2 tk2.
            i < j \<and> j < length as \<and> as ! i = BookingJson bk1 tk1 \<and>
            as ! j = BookingJson bk2 tk2 \<longrightarrow>
            ticket_qrCode tk1 \<noteq> ticket_qrCode tk2"
    using serve_all_codes_differ [OF assms] by blast
  have one: "tickets_wf d \<longrightarrow>
            (\<forall>bk tk. BookingJson bk tk \<in> set as \<longrightarrow>
               length (filter (\<lambda>t. ticket_bookingId t = booking_id bk) (tickets d')) = 1)"
  proof (intro impI allI)
    fix bk tk
    assume wf: "tickets_wf d" and ans: "BookingJson bk tk \<in> set as"
    have "distinct (map ticket_bookingId (tickets d'))"
      using serve_all_tickets_wf [OF wf assms] by (simp add: tickets_wf_def)
    moreover have "booking_id bk \<in> set (map ticket_bookingId (tickets d'))"
      using serve_all_booking_answer [OF assms ans] by blast
    ultimately show "length (filter (\<lambda>t. ticket_bookingId t = booking_id bk) (tickets d')) = 1"
      by (rule one_reference)
  qed
  show ?thesis using pairs one by (intro conjI)
qed

theorem ticket_codes_unique_witness:
  "serve_all demo_db demo_two_bookings =
     (demo_db_booked_twice,
      [BookingJson demo_booking2 demo_ticket2, BookingJson demo_booking3 demo_ticket3])
   \<and> tickets_wf demo_db
   \<and> ticket_qrCode demo_ticket2 \<noteq> ticket_qrCode demo_ticket3
   \<and> length (filter (\<lambda>t. ticket_bookingId t = booking_id demo_booking2)
               (tickets demo_db_booked_twice)) = 1
   \<and> length (filter (\<lambda>t. ticket_bookingId t = booking_id demo_booking3)
               (tickets demo_db_booked_twice)) = 1"
proof -
  let ?as = "[BookingJson demo_booking2 demo_ticket2, BookingJson demo_booking3 demo_ticket3]"
  have second: "post_bookings demo_db_booked demo_student_user ''e1'' 5 (Some ''b3'') (Some ''t3'')
      = (demo_db_booked_twice, BookingJson demo_booking3 demo_ticket3)"
    by (simp add: post_bookings_def demo_defs2 demo_booking3_def demo_ticket3_def
        demo_db_booked_twice_def store_defs qrCode_of_def show_nat_5)
  have run: "serve_all demo_db demo_two_bookings = (demo_db_booked_twice, ?as)"
    by (simp add: demo_two_bookings_def demo_booking_run second)
  have wf: "tickets_wf demo_db"
    by (simp add: tickets_wf_def demo_defs)
  note T = ticket_codes_unique [OF run]
  have "ticket_qrCode demo_ticket2 \<noteq> ticket_qrCode demo_ticket3"
    using T [THEN conjunct1, rule_format, of 0 1 demo_booking2 demo_ticket2
        demo_booking3 demo_ticket3]
    by simp
  moreover have "length (filter (\<lambda>t. ticket_bookingId t = booking_id demo_booking2)
               (tickets demo_db_booked_twice)) = 1"
    using T [THEN conjunct2, rule_format, OF wf, of demo_booking2 demo_ticket2] by simp
  moreover have "length (filter (\<lambda>t. ticket_bookingId t = booking_id demo_booking3)
               (tickets demo_db_booked_twice)) = 1"
    using T [THEN conjunct2, rule_format, OF wf, of demo_booking3 demo_ticket3] by simp
  ultimately show ?thesis using run wf by simp
qed

section \<open>Rounding to a binary64 value\<close>

text \<open>
  The exponent found by \<open>binade\<close> brackets its argument, rounding is monotone, keeps the
  values with a 53-bit significand and moves a positive value by at most one part in
  \<open>2 ^ 53\<close>.
\<close>

lemma binade_bounds:
  assumes "0 < x"
  shows "2 powi (binade x) \<le> x \<and> x < 2 powi (binade x + 1)"
proof -
  obtain p q where pq: "quotient_of x = (p, q)" by (cases "quotient_of x")
  then have q: "0 < q" by (rule quotient_of_denom_pos)
  have x: "x = of_int p / of_int q" using pq by (rule quotient_of_div)
  then have p: "0 < p" using assms q by (simp add: zero_less_divide_iff)
  let ?k = "bitlen p - bitlen q"
  have bp: "2 ^ nat (bitlen p - 1) \<le> p" "p < 2 ^ nat (bitlen p)"
    using bitlen_bounds [OF p] by auto
  have bq: "2 ^ nat (bitlen q - 1) \<le> q" "q < 2 ^ nat (bitlen q)"
    using bitlen_bounds [OF q] by auto
  have lp: "1 \<le> bitlen p" and lq: "1 \<le> bitlen q"
    using p q bitlen_eq_zero_iff [of p] bitlen_eq_zero_iff [of q] bitlen_nonneg [of p]
      bitlen_nonneg [of q] by linarith+
  have P1: "(2::rat) powi (bitlen p - 1) \<le> of_int p"
  proof -
    have "(of_int (2 ^ nat (bitlen p - 1)) :: rat) \<le> of_int p"
      using bp(1) by (simp only: of_int_le_iff)
    then show ?thesis using lp by (simp add: power_int_def)
  qed
  have P2: "of_int p < (2::rat) powi (bitlen p)"
  proof -
    have "(of_int p :: rat) < of_int (2 ^ nat (bitlen p))"
      using bp(2) by (simp only: of_int_less_iff)
    then show ?thesis using lp by (simp add: power_int_def)
  qed
  have Q1: "(2::rat) powi (bitlen q - 1) \<le> of_int q"
  proof -
    have "(of_int (2 ^ nat (bitlen q - 1)) :: rat) \<le> of_int q"
      using bq(1) by (simp only: of_int_le_iff)
    then show ?thesis using lq by (simp add: power_int_def)
  qed
  have Q2: "of_int q < (2::rat) powi (bitlen q)"
  proof -
    have "(of_int q :: rat) < of_int (2 ^ nat (bitlen q))"
      using bq(2) by (simp only: of_int_less_iff)
    then show ?thesis using lq by (simp add: power_int_def)
  qed
  have qpos: "(0::rat) < of_int q" using q by simp
  have upper: "x < 2 powi (?k + 1)"
  proof -
    have "of_int p / of_int q < (2::rat) powi (bitlen p) / 2 powi (bitlen q - 1)"
      using P2 Q1 p by (intro frac_less) (auto simp: zero_less_power_int)
    moreover have "(2::rat) powi (?k + 1) = 2 powi (bitlen p) / 2 powi (bitlen q - 1)"
      using power_int_diff [of "2::rat" "bitlen p" "bitlen q - 1"] by (simp add: algebra_simps)
    ultimately show ?thesis by (simp add: x)
  qed
  have lower: "2 powi (?k - 1) < x"
  proof -
    have "(2::rat) powi (bitlen p - 1) / 2 powi (bitlen q) < of_int p / of_int q"
      using P1 Q2 qpos by (intro frac_less2) (auto simp: zero_less_power_int)
    moreover have "(2::rat) powi (?k - 1) = 2 powi (bitlen p - 1) / 2 powi (bitlen q)"
      using power_int_diff [of "2::rat" "bitlen p - 1" "bitlen q"] by (simp add: algebra_simps)
    ultimately show ?thesis by (simp add: x)
  qed
  show ?thesis
  proof (cases "2 powi ?k \<le> x")
    case True
    then show ?thesis using upper by (simp add: binade_def pq)
  next
    case False
    then have "binade x = ?k - 1" by (simp add: binade_def pq)
    then show ?thesis using lower False by simp
  qed
qed

lemma two_powi_less_D:
  assumes "(2::rat) powi a < 2 powi b"
  shows "a < b"
proof (rule ccontr)
  assume "\<not> a < b"
  then have "(2::rat) powi b \<le> 2 powi a" by (intro power_int_increasing) auto
  then show False using assms by simp
qed

lemma powi_split_52: "(2::rat) powi e = 2 ^ 52 * 2 powi (e - 52)"
proof -
  have "(2::rat) powi (52 + (e - 52)) = 2 powi 52 * 2 powi (e - 52)"
    by (rule power_int_add) simp
  then show ?thesis by simp
qed

lemma powi_split_53: "(2::rat) powi (e + 1) = 2 ^ 53 * 2 powi (e - 52)"
proof -
  have "(2::rat) powi (53 + (e - 52)) = 2 powi 53 * 2 powi (e - 52)"
    by (rule power_int_add) simp
  moreover have "53 + (e - 52) = e + 1" by simp
  ultimately show ?thesis by simp
qed

lemma binade_unique:
  assumes "0 < x" and "2 powi e \<le> x" and "x < 2 powi (e + 1)"
  shows "binade x = e"
proof -
  let ?k = "binade x"
  have k: "2 powi ?k \<le> x" "x < 2 powi (?k + 1)"
    using binade_bounds [OF assms(1)] by auto
  have "(2::rat) powi ?k < 2 powi (e + 1)" using k(1) assms(3) by simp
  then have "?k < e + 1" by (rule two_powi_less_D)
  moreover have "(2::rat) powi e < 2 powi (?k + 1)" using k(2) assms(2) by simp
  then have "e < ?k + 1" by (rule two_powi_less_D)
  ultimately show ?thesis by simp
qed

lemma round_even_cases:
  "round_even y = \<lfloor>y\<rfloor> \<or> round_even y = \<lfloor>y\<rfloor> + 1"
  by (simp add: round_even_def Let_def)

lemma round_even_of_int [simp]: "round_even (of_int n) = n"
  by (simp add: round_even_def Let_def)

lemma round_even_error: "\<bar>of_int (round_even y) - y\<bar> \<le> 1 / 2"
proof -
  have "of_int \<lfloor>y\<rfloor> \<le> y" "y < of_int \<lfloor>y\<rfloor> + 1" by linarith+
  then show ?thesis
    by (auto simp: round_even_def Let_def abs_le_iff)
qed

lemma round_even_mono:
  assumes "y \<le> z"
  shows "round_even y \<le> round_even z"
proof -
  have le: "\<lfloor>y\<rfloor> \<le> \<lfloor>z\<rfloor>" using assms by (rule floor_mono)
  show ?thesis
  proof (cases "\<lfloor>y\<rfloor> = \<lfloor>z\<rfloor>")
    case True
    then have "y - of_int \<lfloor>y\<rfloor> \<le> z - of_int \<lfloor>z\<rfloor>" using assms by simp
    then show ?thesis
      using True by (auto simp: round_even_def Let_def)
  next
    case False
    then have "\<lfloor>y\<rfloor> + 1 \<le> \<lfloor>z\<rfloor>" using le by simp
    then show ?thesis
      using round_even_cases [of y] round_even_cases [of z] by auto
  qed
qed

lemma round_even_ge: "of_int n \<le> y \<Longrightarrow> n \<le> round_even y"
  using round_even_mono [of "of_int n" y] by simp

lemma round_even_le: "y \<le> of_int n \<Longrightarrow> round_even y \<le> n"
  using round_even_mono [of y "of_int n"] by simp

lemma to_double_of_pos:
  assumes "0 < x"
  shows "to_double x = of_int (round_even (x / 2 powi (binade x - 52))) * 2 powi (binade x - 52)"
  using assms by (simp add: to_double_def Let_def)

lemma to_double_nonneg:
  assumes "0 \<le> x"
  shows "0 \<le> to_double x"
proof (cases "x = 0")
  case True then show ?thesis by (simp add: to_double_def)
next
  case False
  then have x: "0 < x" using assms by simp
  let ?u = "(2::rat) powi (binade x - 52)"
  have "0 < ?u" by (simp add: zero_less_power_int)
  moreover have "0 \<le> x / ?u" using x \<open>0 < ?u\<close> by simp
  then have "0 \<le> round_even (x / ?u)" using round_even_ge [of 0 "x / ?u"] by simp
  ultimately show ?thesis using x by (simp add: to_double_of_pos)
qed

lemma significand_bounds:
  assumes "0 < x"
  shows "2 ^ 52 \<le> x / 2 powi (binade x - 52)" and "x / 2 powi (binade x - 52) < 2 ^ 53"
proof -
  let ?e = "binade x"
  have u: "(0::rat) < 2 powi (?e - 52)" by (simp add: zero_less_power_int)
  have e: "2 powi ?e \<le> x" "x < 2 powi (?e + 1)" using binade_bounds [OF assms] by auto
  have "(2::rat) powi ?e = 2 ^ 52 * 2 powi (?e - 52)"
    by (rule powi_split_52)
  then show "2 ^ 52 \<le> x / 2 powi (?e - 52)"
    using e(1) u by (simp add: pos_le_divide_eq)
  have "(2::rat) powi (?e + 1) = 2 ^ 53 * 2 powi (?e - 52)"
    by (rule powi_split_53)
  then show "x / 2 powi (?e - 52) < 2 ^ 53"
    using e(2) u by (simp add: pos_divide_less_eq)
qed

lemma to_double_binade:
  assumes "0 < x"
  shows "2 powi (binade x) \<le> to_double x" and "to_double x \<le> 2 powi (binade x + 1)"
proof -
  let ?e = "binade x"
  let ?u = "(2::rat) powi (?e - 52)"
  let ?m = "round_even (x / ?u)"
  have u: "0 < ?u" by (simp add: zero_less_power_int)
  have val: "to_double x = of_int ?m * ?u" using assms by (simp add: to_double_of_pos)
  have "of_int (2 ^ 52) \<le> x / ?u" using significand_bounds(1) [OF assms] by simp
  then have lo: "2 ^ 52 \<le> ?m" by (rule round_even_ge)
  have "x / ?u \<le> of_int (2 ^ 53)" using significand_bounds(2) [OF assms] by simp
  then have hi: "?m \<le> 2 ^ 53" by (rule round_even_le)
  have e1: "(2::rat) powi ?e = 2 ^ 52 * ?u"
    by (rule powi_split_52)
  have e2: "(2::rat) powi (?e + 1) = 2 ^ 53 * ?u"
    by (rule powi_split_53)
  have "(2 ^ 52 :: rat) \<le> of_int ?m" using lo by (metis of_int_le_iff of_int_numeral of_int_power)
  then show "2 powi ?e \<le> to_double x" using u by (simp add: val e1)
  have "(of_int ?m :: rat) \<le> 2 ^ 53" using hi by (metis of_int_le_iff of_int_numeral of_int_power)
  then show "to_double x \<le> 2 powi (?e + 1)" using u by (simp add: val e2)
qed

lemma binade_mono:
  assumes "0 < x" and "x \<le> y"
  shows "binade x \<le> binade y"
proof -
  have "2 powi (binade x) \<le> x" using binade_bounds [OF assms(1)] by simp
  moreover have "y < 2 powi (binade y + 1)" using binade_bounds [of y] assms by simp
  ultimately have "(2::rat) powi (binade x) < 2 powi (binade y + 1)" using assms(2) by simp
  then have "binade x < binade y + 1" by (rule two_powi_less_D)
  then show ?thesis by simp
qed

lemma to_double_mono:
  assumes "0 \<le> x" and "x \<le> y"
  shows "to_double x \<le> to_double y"
proof (cases "x = 0")
  case True
  then show ?thesis using to_double_nonneg [of y] assms by (simp add: to_double_def)
next
  case False
  then have x: "0 < x" and y: "0 < y" using assms by auto
  have le: "binade x \<le> binade y" using x assms(2) by (rule binade_mono)
  show ?thesis
  proof (cases "binade x = binade y")
    case True
    let ?u = "(2::rat) powi (binade y - 52)"
    have u: "0 < ?u" by (simp add: zero_less_power_int)
    have "x / ?u \<le> y / ?u" using assms u by (simp add: divide_right_mono)
    then have "round_even (x / ?u) \<le> round_even (y / ?u)" by (rule round_even_mono)
    then have "(of_int (round_even (x / ?u)) :: rat) * ?u \<le> of_int (round_even (y / ?u)) * ?u"
      using u by (simp add: mult_right_mono)
    then show ?thesis using x y True by (simp add: to_double_of_pos)
  next
    case False
    then have "binade x + 1 \<le> binade y" using le by simp
    then have "(2::rat) powi (binade x + 1) \<le> 2 powi (binade y)"
      by (intro power_int_increasing) auto
    then show ?thesis
      using to_double_binade(2) [OF x] to_double_binade(1) [OF y] by linarith
  qed
qed

lemma to_double_exact:
  assumes "2 ^ 52 \<le> m" and "m < 2 ^ 53"
  shows "to_double (of_int m * 2 powi j) = of_int m * 2 powi j"
proof -
  let ?x = "(of_int m :: rat) * 2 powi j"
  have m: "(2 ^ 52 :: rat) \<le> of_int m" "(of_int m :: rat) < 2 ^ 53"
    using assms by (metis of_int_le_iff of_int_numeral of_int_power)
      (metis assms(2) of_int_less_iff of_int_numeral of_int_power)
  have pj: "(0::rat) < 2 powi j" by (simp add: zero_less_power_int)
  have x: "0 < ?x" using m pj by (simp add: zero_less_mult_iff)
  have "(2::rat) powi (j + 52) = 2 ^ 52 * 2 powi j"
    using powi_split_52 [of "j + 52"] by simp
  then have lo: "2 powi (j + 52) \<le> ?x" using m pj by simp
  have "(2::rat) powi (j + 52 + 1) = 2 ^ 53 * 2 powi j"
    using powi_split_53 [of "j + 52"] by simp
  then have hi: "?x < 2 powi (j + 52 + 1)" using m pj by simp
  have e: "binade ?x = j + 52" using x lo hi by (rule binade_unique)
  show ?thesis using x pj by (simp add: to_double_of_pos e)
qed

lemma to_double_1: "to_double 1 = 1"
  using to_double_exact [of "2 ^ 52" "- 52"] by (simp add: power_int_minus)

lemma to_double_100: "to_double 100 = 100"
proof -
  have "to_double (of_int (100 * 2 ^ 46) * 2 powi (- 46)) = of_int (100 * 2 ^ 46) * 2 powi (- 46)"
    by (rule to_double_exact) simp_all
  then show ?thesis by (simp add: power_int_minus)
qed

lemma to_double_error:
  assumes "0 < x"
  shows "\<bar>to_double x - x\<bar> \<le> x / 2 ^ 53"
proof -
  let ?u = "(2::rat) powi (binade x - 52)"
  let ?m = "round_even (x / ?u)"
  have u: "0 < ?u" by (simp add: zero_less_power_int)
  have "to_double x - x = (of_int ?m - x / ?u) * ?u"
    using assms u by (simp add: to_double_of_pos field_simps)
  then have "\<bar>to_double x - x\<bar> = \<bar>of_int ?m - x / ?u\<bar> * ?u" using u by (simp add: abs_mult)
  also have "\<dots> \<le> 1 / 2 * ?u"
    using round_even_error [of "x / ?u"] u by (intro mult_right_mono) auto
  also have "\<dots> \<le> x / 2 ^ 53"
  proof -
    have "2 ^ 52 * ?u \<le> x" using significand_bounds(1) [OF assms] u by (simp add: pos_le_divide_eq)
    then show ?thesis by simp
  qed
  finally show ?thesis .
qed

section \<open>The rate expression\<close>

lemma rate_bounds:
  assumes "a \<le> b" and "0 < b"
  shows "0 \<le> js_mul (js_div (of_nat a) (of_nat b)) 100"
    and "js_mul (js_div (of_nat a) (of_nat b)) 100 \<le> 100"
proof -
  let ?x = "(of_nat a :: rat) / of_nat b"
  have x0: "0 \<le> ?x" by simp
  then have r0: "0 \<le> to_double ?x * 100" using to_double_nonneg [of ?x] by simp
  then show "0 \<le> js_mul (js_div (of_nat a) (of_nat b)) 100"
    using to_double_nonneg [of "to_double ?x * 100"] by (simp add: js_mul_def js_div_def)
  have "?x \<le> 1" using assms by simp
  then have "to_double ?x \<le> 1" using to_double_mono [OF x0, of 1] by (simp add: to_double_1)
  then have "to_double ?x * 100 \<le> 100" by simp
  then have "to_double (to_double ?x * 100) \<le> 100"
    using to_double_mono [OF r0, of 100] by (simp add: to_double_100)
  then show "js_mul (js_div (of_nat a) (of_nat b)) 100 \<le> 100"
    by (simp add: js_mul_def js_div_def)
qed

lemma to_double_pos: "0 < x \<Longrightarrow> 0 < to_double x"
proof -
  assume x: "0 < x"
  have "(0::rat) < 2 powi (binade x)" by (simp add: zero_less_power_int)
  then show ?thesis using to_double_binade(1) [OF x] by linarith
qed

lemma two_roundings:
  fixes x r1 r :: rat
  assumes "0 < x" and "\<bar>r1 - x\<bar> \<le> x / 2 ^ 53" and "\<bar>r - r1 * 100\<bar> \<le> r1 * 100 / 2 ^ 53"
  shows "\<bar>r - x * 100\<bar> \<le> x * 100 / 2 ^ 51"
  using assms unfolding abs_le_iff by simp

lemma rate_error:
  assumes "0 < b"
  shows "\<bar>js_mul (js_div (of_nat a) (of_nat b)) 100 - of_nat a / of_nat b * 100\<bar>
           \<le> of_nat a / of_nat b * 100 / 2 ^ 51"
proof (cases "a = 0")
  case True
  then show ?thesis by (simp add: js_mul_def js_div_def to_double_def)
next
  case False
  let ?x = "(of_nat a :: rat) / of_nat b"
  let ?r1 = "to_double ?x"
  let ?r = "to_double (?r1 * 100)"
  have x: "0 < ?x" using False assms by simp
  have r1: "0 < ?r1" using x by (rule to_double_pos)
  have e1: "\<bar>?r1 - ?x\<bar> \<le> ?x / 2 ^ 53" using x by (rule to_double_error)
  have "0 < ?r1 * 100" using r1 by simp
  then have e2: "\<bar>?r - ?r1 * 100\<bar> \<le> ?r1 * 100 / 2 ^ 53" by (rule to_double_error)
  have "\<bar>?r - ?x * 100\<bar> \<le> ?x * 100 / 2 ^ 51"
    using x e1 e2 by (rule two_roundings)
  then show ?thesis by (simp add: js_mul_def js_div_def)
qed

section \<open>The consistency of the store is kept\<close>

lemma find_append_found:
  assumes "\<exists>x \<in> set xs. P x"
  shows "find P (xs @ ys) = find P xs"
  using assms by (induction xs) auto

lemma ticket_event_stable:
  assumes "bookings d' = bookings d @ ys"
    and "ticket_bookingId t \<in> booking_id ` set (bookings d)"
  shows "ticket_event d' t = ticket_event d t"
proof -
  have "\<exists>b \<in> set (bookings d). booking_id b = ticket_bookingId t"
    using assms(2) by auto
  then show ?thesis
    by (simp add: ticket_event_def booking_findUnique_def assms(1) find_append_found)
qed

lemma map_filter_cong_set:
  assumes "\<And>x. x \<in> set xs \<Longrightarrow> g x = h x"
  shows "List.map_filter g xs = List.map_filter h xs"
  using assms
proof (induction xs)
  case Nil
  then show ?case by (simp add: map_filter_simps)
next
  case (Cons a xs)
  have "g a = h a" using Cons.prems by simp
  moreover have "List.map_filter g xs = List.map_filter h xs" using Cons by simp
  ultimately show ?case by (simp add: map_filter_simps split: option.splits)
qed

lemma map_filter_snoc:
  "List.map_filter g (xs @ [y]) =
     List.map_filter g xs @ (case g y of None \<Rightarrow> [] | Some v \<Rightarrow> [v])"
  by (induction xs) (auto simp: map_filter_simps split: option.splits)

lemma map_filter_of_map: "List.map_filter g (map u xs) = List.map_filter (\<lambda>x. g (u x)) xs"
  by (induction xs) (auto simp: map_filter_simps split: option.splits)

lemma scanned_events_bookings_grow:
  assumes "tickets_wf d" and "bookings d' = bookings d @ ys"
    and "tickets d' = tickets d \<or> (\<exists>tk. tickets d' = tickets d @ [tk] \<and> \<not> ticket_isScanned tk)"
  shows "scanned_events d' = scanned_events d"
proof -
  let ?g = "\<lambda>d t. if ticket_isScanned t then ticket_event d t else None"
  have same: "?g d' t = ?g d t" if "t \<in> set (tickets d)" for t
  proof -
    have "ticket_bookingId t \<in> booking_id ` set (bookings d)"
      using assms(1) that by (auto simp: tickets_wf_def)
    then show ?thesis using ticket_event_stable [OF assms(2)] by simp
  qed
  then have old: "List.map_filter (?g d') (tickets d) = List.map_filter (?g d) (tickets d)"
    by (rule map_filter_cong_set)
  from assms(3) show ?thesis
  proof
    assume "tickets d' = tickets d"
    then show ?thesis using old by (simp add: scanned_events_def)
  next
    assume "\<exists>tk. tickets d' = tickets d @ [tk] \<and> \<not> ticket_isScanned tk"
    then obtain tk where "tickets d' = tickets d @ [tk]" "\<not> ticket_isScanned tk" by blast
    then show ?thesis using old by (simp add: scanned_events_def map_filter_snoc)
  qed
qed

lemma map_filter_gain:
  assumes "\<And>t. t \<in> set ts \<Longrightarrow> g t = None \<or> g t = h t"
  shows "mset (List.map_filter g ts) \<subseteq># mset (List.map_filter h ts)"
  using assms
proof (induction ts)
  case Nil
  then show ?case by (simp add: map_filter_simps)
next
  case (Cons t ts)
  have ih: "mset (List.map_filter g ts) \<subseteq># mset (List.map_filter h ts)"
    using Cons by simp
  have "g t = None \<or> g t = h t" using Cons.prems by simp
  then show ?case
    using ih by (cases "h t") (auto simp: map_filter_simps intro: subset_mset.order_trans)
qed

lemma map_filter_strict_gain:
  assumes "\<And>t. t \<in> set ts \<Longrightarrow> g t = None \<or> g t = h t"
    and "x \<in> set ts" and "g x = None" and "h x = Some e"
  shows "add_mset e (mset (List.map_filter g ts)) \<subseteq># mset (List.map_filter h ts)"
  using assms
proof (induction ts)
  case Nil
  then show ?case by simp
next
  case (Cons t ts)
  have pt: "g t = None \<or> g t = h t" using Cons.prems(1) by simp
  have rest: "\<And>t. t \<in> set ts \<Longrightarrow> g t = None \<or> g t = h t" using Cons.prems(1) by simp
  show ?case
  proof (cases "x = t")
    case True
    have "mset (List.map_filter g ts) \<subseteq># mset (List.map_filter h ts)"
      using rest by (rule map_filter_gain)
    then show ?thesis using True Cons.prems(3,4) by (simp add: map_filter_simps)
  next
    case False
    then have "x \<in> set ts" using Cons.prems(2) by simp
    then have ih: "add_mset e (mset (List.map_filter g ts)) \<subseteq># mset (List.map_filter h ts)"
      using Cons.IH rest Cons.prems(3,4) by blast
    from pt show ?thesis
    proof
      assume "g t = None"
      then show ?thesis
        using ih by (cases "h t") (auto simp: map_filter_simps intro: subset_mset.order_trans)
    next
      assume eq: "g t = h t"
      show ?thesis
      proof (cases "h t")
        case None
        then show ?thesis using eq ih by (simp add: map_filter_simps)
      next
        case (Some v)
        have "add_mset e (add_mset v (mset (List.map_filter g ts))) =
              add_mset v (add_mset e (mset (List.map_filter g ts)))" by simp
        then show ?thesis using eq Some ih by (simp add: map_filter_simps)
      qed
    qed
  qed
qed

lemma scan_outcomes:
  assumes "post_organizer_scan d usr i now ok rep = (d', r)"
  shows "d' = d
       \<or> (\<exists>tk. ticket_findUnique d i = Some tk \<and> \<not> ticket_isScanned tk \<and>
            (d' = d\<lparr>tickets := map (\<lambda>t. if ticket_id t = i
                       then t\<lparr>ticket_isScanned := True, ticket_scannedAt := Some now\<rparr>
                       else t) (tickets d)\<rparr>
           \<or> (\<exists>bk aid. booking_findUnique d (ticket_bookingId tk) = Some bk \<and>
                  d' = d\<lparr>tickets := map (\<lambda>t. if ticket_id t = i
                             then t\<lparr>ticket_isScanned := True, ticket_scannedAt := Some now\<rparr>
                             else t) (tickets d),
                          attendances := attendances d @
                            [\<lparr>attendance_id = aid, attendance_studentId = booking_studentId bk,
                              attendance_eventId = booking_eventId bk\<rparr>]\<rparr>)))"
  using assms
  by (auto simp: post_organizer_scan_def ticket_update_def attendance_create_def Let_def
      split: if_splits option.splits)

lemma scanned_events_after_update:
  fixes d :: db
  defines "upd \<equiv> \<lambda>i now t. if ticket_id t = i
             then t\<lparr>ticket_isScanned := True, ticket_scannedAt := Some now\<rparr> else t"
  assumes "tickets d' = map (upd i now) (tickets d)" and "bookings d' = bookings d"
  shows "mset (scanned_events d) \<subseteq># mset (scanned_events d')"
    and "ticket_findUnique d i = Some tk \<Longrightarrow> \<not> ticket_isScanned tk \<Longrightarrow>
         booking_findUnique d (ticket_bookingId tk) = Some bk \<Longrightarrow>
         add_mset (booking_eventId bk) (mset (scanned_events d)) \<subseteq># mset (scanned_events d')"
proof -
  let ?g = "\<lambda>t. if ticket_isScanned t then ticket_event d t else None"
  let ?h = "\<lambda>t. if ticket_isScanned (upd i now t) then ticket_event d' (upd i now t) else None"
  have ev': "ticket_event d' t' = ticket_event d t"
    if "ticket_bookingId t' = ticket_bookingId t" for t t'
    using that by (simp add: ticket_event_def booking_findUnique_def assms(3))
  have ev: "ticket_event d' (upd i now t) = ticket_event d t" for t
    by (rule ev') (simp add: upd_def)
  have new: "scanned_events d' = List.map_filter ?h (tickets d)"
    by (simp add: scanned_events_def assms(2) map_filter_of_map)
  have old: "scanned_events d = List.map_filter ?g (tickets d)"
    by (simp add: scanned_events_def)
  have pt: "?g t = None \<or> ?g t = ?h t" for t
    by (cases "ticket_id t = i") (simp_all add: upd_def ev')
  show "mset (scanned_events d) \<subseteq># mset (scanned_events d')"
    unfolding new old by (rule map_filter_gain) (rule pt)
  assume f: "ticket_findUnique d i = Some tk" and u: "\<not> ticket_isScanned tk"
    and b: "booking_findUnique d (ticket_bookingId tk) = Some bk"
  have mem: "tk \<in> set (tickets d)" and id: "ticket_id tk = i"
    using f by (auto simp: ticket_findUnique_def find_Some_iff)
  have g0: "?g tk = None" using u by simp
  have h0: "?h tk = Some (booking_eventId bk)"
  proof -
    have "ticket_event d' (upd i now tk) = ticket_event d tk" by (rule ev)
    also have "\<dots> = Some (booking_eventId bk)" using b by (simp add: ticket_event_def)
    finally show ?thesis using id by (simp add: upd_def)
  qed
  show "add_mset (booking_eventId bk) (mset (scanned_events d)) \<subseteq># mset (scanned_events d')"
    unfolding new old
  proof (rule map_filter_strict_gain [where g = ?g and h = ?h and x = tk])
    show "?g t = None \<or> ?g t = ?h t" for t by (rule pt)
    show "tk \<in> set (tickets d)" by (rule mem)
    show "?g tk = None" by (rule g0)
    show "?h tk = Some (booking_eventId bk)" by (rule h0)
  qed
qed

lemma scan_store_inv:
  assumes "store_inv d" and "post_organizer_scan d usr i now ok rep = (d', r)"
  shows "store_inv d'"
proof -
  have wf: "tickets_wf d" and att: "mset (map attendance_eventId (attendances d))
                                      \<subseteq># mset (scanned_events d)"
    using assms(1) by (simp_all add: store_inv_def)
  have wf': "tickets_wf d'"
    using scan_effect(1,2) [OF assms(2)] wf by (simp add: tickets_wf_def)
  let ?upd = "\<lambda>t. if ticket_id t = i
                 then t\<lparr>ticket_isScanned := True, ticket_scannedAt := Some now\<rparr> else t"
  from scan_outcomes [OF assms(2)]
  consider (same) "d' = d"
    | (flag) "d' = d\<lparr>tickets := map ?upd (tickets d)\<rparr>"
    | (row) tk bk aid where "ticket_findUnique d i = Some tk" "\<not> ticket_isScanned tk"
        "booking_findUnique d (ticket_bookingId tk) = Some bk"
        "d' = d\<lparr>tickets := map ?upd (tickets d),
                 attendances := attendances d @
                   [\<lparr>attendance_id = aid, attendance_studentId = booking_studentId bk,
                     attendance_eventId = booking_eventId bk\<rparr>]\<rparr>"
    by blast
  then show ?thesis
  proof cases
    case same
    then show ?thesis using assms(1) by simp
  next
    case flag
    have "mset (scanned_events d) \<subseteq># mset (scanned_events d')"
      by (rule scanned_events_after_update(1) [where i = i and now = now]) (simp_all add: flag)
    moreover have "attendances d' = attendances d" by (simp add: flag)
    ultimately have "mset (map attendance_eventId (attendances d')) \<subseteq># mset (scanned_events d')"
      using subset_mset.order_trans [OF att] by simp
    then show ?thesis using wf' by (simp add: store_inv_def)
  next
    case row
    have gain: "add_mset (booking_eventId bk) (mset (scanned_events d)) \<subseteq># mset (scanned_events d')"
      by (rule scanned_events_after_update(2) [where i = i and now = now and tk = tk])
        (simp_all add: row)
    have rows: "mset (map attendance_eventId (attendances d')) =
        add_mset (booking_eventId bk) (mset (map attendance_eventId (attendances d)))"
      by (simp add: row(4))
    have "add_mset (booking_eventId bk) (mset (map attendance_eventId (attendances d)))
        \<subseteq># add_mset (booking_eventId bk) (mset (scanned_events d))"
      using att by simp
    from subset_mset.order_trans [OF this gain]
    have "mset (map attendance_eventId (attendances d')) \<subseteq># mset (scanned_events d')"
      by (simp only: rows)
    then show ?thesis using wf' by (simp add: store_inv_def)
  qed
qed

lemma booking_store_inv:
  assumes "store_inv d" and "post_bookings d usr e now br tr = (d', r)"
  shows "store_inv d'"
proof -
  have wf: "tickets_wf d" and att: "mset (map attendance_eventId (attendances d))
                                      \<subseteq># mset (scanned_events d)"
    using assms(1) by (simp_all add: store_inv_def)
  have "serve d (Book usr e now br tr) = (d', r)" using assms(2) by simp
  then have wf': "tickets_wf d'" using wf serve_tickets_wf by blast
  obtain ys where ys: "bookings d' = bookings d @ ys"
    using booking_effect(1) [OF assms(2)] by blast
  have "tickets d' = tickets d \<or> (\<exists>tk. tickets d' = tickets d @ [tk] \<and> \<not> ticket_isScanned tk)"
    using assms(2) unfolding post_bookings_cases
    by (auto simp: Let_def split: option.splits if_splits)
  then have "scanned_events d' = scanned_events d"
    using wf ys by (intro scanned_events_bookings_grow)
  moreover have "attendances d' = attendances d" using booking_effect(3) [OF assms(2)] .
  ultimately show ?thesis using att wf' by (simp add: store_inv_def)
qed

lemma guest_store_inv:
  assumes "store_inv d" and "post_auth_guest d body secret reply = (d', r)"
  shows "store_inv d'"
proof -
  have same: "bookings d' = bookings d" "tickets d' = tickets d" "attendances d' = attendances d"
    using guest_effect [OF assms(2)] by simp_all
  have ev: "ticket_event d' = ticket_event d"
    by (simp add: fun_eq_iff ticket_event_def booking_findUnique_def same)
  have "scanned_events d' = scanned_events d"
    unfolding scanned_events_def ev same ..
  then show ?thesis
    using assms(1) by (simp add: store_inv_def tickets_wf_def same)
qed

lemma store_inv_no_tickets:
  assumes "tickets d = []" and "attendances d = []"
  shows "store_inv d"
  using assms by (simp add: store_inv_def tickets_wf_def scanned_events_def map_filter_simps)

lemma serve_store_inv:
  assumes "store_inv d" and "serve d r = (d', a)"
  shows "store_inv d'"
proof (cases r)
  case (Scan usr i now ok rep)
  then show ?thesis using assms scan_store_inv by simp
next
  case (Book usr e now br tr)
  then show ?thesis using assms booking_store_inv by simp
next
  case (Guest body secret reply)
  then show ?thesis using assms guest_store_inv by simp
next
  case (Stats usr)
  then show ?thesis using assms by auto
qed

lemma serve_all_store_inv:
  "store_inv d \<Longrightarrow> serve_all d rs = (d', as) \<Longrightarrow> store_inv d'"
proof (induction rs arbitrary: d as)
  case Nil
  then show ?case by simp
next
  case (Cons r rs)
  from Cons.prems(2) obtain d1 a as' where
    s: "serve d r = (d1, a)" "serve_all d1 rs = (d', as')" by (rule serve_all_Cons)
  from serve_store_inv [OF Cons.prems(1) s(1)] Cons.IH s(2) show ?case by blast
qed

lemma length_filter_map_filter:
  "length (filter P (List.map_filter g xs)) =
   length (filter (\<lambda>x. case g x of None \<Rightarrow> False | Some e \<Rightarrow> P e) xs)"
  by (induction xs) (auto simp: map_filter_simps split: option.splits)

lemma scanned_le_bookings:
  assumes "tickets_wf d"
  shows "length (filter P (scanned_events d)) \<le>
         length (filter (\<lambda>b. P (booking_eventId b)) (bookings d))"
proof -
  let ?g = "\<lambda>t. if ticket_isScanned t then ticket_event d t else None"
  let ?T = "filter (\<lambda>t. case ?g t of None \<Rightarrow> False | Some e \<Rightarrow> P e) (tickets d)"
  let ?B = "filter (\<lambda>b. P (booking_eventId b)) (bookings d)"
  let ?phi = "\<lambda>t. the (booking_findUnique d (ticket_bookingId t))"
  have len: "length (filter P (scanned_events d)) = length ?T"
    by (simp add: scanned_events_def length_filter_map_filter)
  have dis: "distinct (map ticket_bookingId ?T)"
    using assms by (simp add: tickets_wf_def distinct_map_filter)
  then have disT: "distinct ?T" by (simp add: distinct_map)
  have inj: "inj_on ticket_bookingId (set ?T)"
    using dis by (simp add: distinct_map)
  have found: "?phi t \<in> set ?B \<and> booking_id (?phi t) = ticket_bookingId t" if "t \<in> set ?T" for t
  proof -
    from that obtain e where e: "?g t = Some e" "P e"
      by (auto split: option.splits)
    then obtain b where b: "booking_findUnique d (ticket_bookingId t) = Some b"
      "booking_eventId b = e"
      by (auto simp: ticket_event_def split: if_splits)
    then have "b \<in> set (bookings d)" "booking_id b = ticket_bookingId t"
      by (auto simp: booking_findUnique_def find_Some_iff)
    then show ?thesis using b e(2) by simp
  qed
  have "inj_on ?phi (set ?T)"
  proof (rule inj_onI)
    fix s t assume s: "s \<in> set ?T" and t: "t \<in> set ?T" and eq: "?phi s = ?phi t"
    have "ticket_bookingId s = ticket_bookingId t"
      using found [OF s] found [OF t] eq by metis
    then show "s = t" using inj s t by (simp add: inj_on_def)
  qed
  then have "card (?phi ` set ?T) = card (set ?T)" by (rule card_image)
  moreover have "?phi ` set ?T \<subseteq> set ?B" using found by blast
  then have "card (?phi ` set ?T) \<le> card (set ?B)" by (intro card_mono) simp_all
  moreover have "card (set ?T) = length ?T" using disT by (rule distinct_card)
  moreover have "card (set ?B) \<le> length ?B" by (rule card_length)
  ultimately show ?thesis using len by linarith
qed

lemma attendance_le_bookings:
  assumes "store_inv d"
  shows "length (filter (\<lambda>a. attendance_eventId a \<in> S) (attendances d)) \<le>
         length (filter (\<lambda>b. booking_eventId b \<in> S) (bookings d))"
proof -
  let ?A = "map attendance_eventId (attendances d)"
  have sub: "mset ?A \<subseteq># mset (scanned_events d)" and wf: "tickets_wf d"
    using assms by (simp_all add: store_inv_def)
  have "length (filter (\<lambda>a. attendance_eventId a \<in> S) (attendances d)) =
        length (filter (\<lambda>e. e \<in> S) ?A)"
    by (simp add: filter_map comp_def)
  also have "\<dots> = size (filter_mset (\<lambda>e. e \<in> S) (mset ?A))"
    by (simp only: mset_filter [symmetric] size_mset)
  also have "\<dots> \<le> size (filter_mset (\<lambda>e. e \<in> S) (mset (scanned_events d)))"
    using sub by (intro size_mset_mono multiset_filter_mono)
  also have "\<dots> = length (filter (\<lambda>e. e \<in> S) (scanned_events d))"
    by (simp only: mset_filter [symmetric] size_mset)
  also have "\<dots> \<le> length (filter (\<lambda>b. booking_eventId b \<in> S) (bookings d))"
    using wf by (rule scanned_le_bookings)
  finally show ?thesis .
qed

section \<open>Ten bookings, four attended\<close>

lemma rate_4_of_10: "js_mul (js_div 4 10) 100 = 40"
proof -
  have b1: "binade (2 / 5) = - 2"
    by (rule binade_unique) (simp_all add: power_int_minus)
  have "\<lfloor>(7205759403792793 + 3 / 5 :: rat)\<rfloor> = 7205759403792793"
    by (simp add: floor_unique)
  then have r1: "round_even (36028797018963968 / 5) = 7205759403792794"
    by (simp add: round_even_def Let_def)
  have d1: "to_double (2 / 5) = 3602879701896397 / 9007199254740992"
    by (simp add: to_double_def b1 Let_def power_int_minus r1)
  have b2: "binade (90071992547409925 / 2251799813685248) = 5"
    by (rule binade_unique) (simp_all add: power_int_minus)
  have "\<lfloor>(5629499534213120 + 5 / 16 :: rat)\<rfloor> = 5629499534213120"
    by (simp add: floor_unique)
  then have r2: "round_even (90071992547409925 / 16) = 5629499534213120"
    by (simp add: round_even_def Let_def)
  have d2: "to_double (90071992547409925 / 2251799813685248) = 40"
    by (simp add: to_double_def b2 Let_def power_int_minus r2)
  show ?thesis by (simp add: js_mul_def js_div_def d1 d2)
qed

lemma demo_stats_inv: "store_inv demo_stats_before"
  by (simp add: store_inv_def tickets_wf_def scanned_events_def ticket_event_def
      booking_findUnique_def demo_stats_before_def map_filter_simps)

lemma demo_stats_run:
  "serve_all demo_stats_before [Scan demo_organizer_user ''t08'' 9 True (Some ''a5'')] =
     (demo_stats_db,
      [ScanJson True (Some \<lparr>student_id = ''s1'', student_userId = ''u1''\<rparr>)])"
  by (simp add: post_organizer_scan_def demo_stats_db_def demo_stats_before_def
      demo_organizer_user_def store_defs)

lemma demo_stats_answer:
  "get_organizer_stats demo_stats_db demo_organizer_user =
     StatsJson \<lparr>totalEvents = 2, totalRegistrations = 10, totalRevenue = 1000,
                 attendanceRate = 40\<rparr>"
  by (simp add: get_organizer_stats_def demo_stats_db_def demo_stats_before_def
      demo_organizer_user_def organizer_findUnique_userId_def Let_def rate_4_of_10)

section \<open>The attendance rate\<close>

text \<open>
  Claim C7. Take a store reached by serving requests one after the other from a
  consistent store, and a caller who is an organizer. The statistics count the bookings
  \<open>b\<close> and the attendance rows \<open>a\<close> of the organizer's events. The rate is 0 when
  there is no booking; otherwise it is \<open>a / b * 100\<close> as the language computes it, in
  binary64 arithmetic, which is within one part in \<open>2 ^ 51\<close> of the exact quotient. The
  rate always lies between 0 and 100.
\<close>

theorem attendance_rate:
  assumes "store_inv d0" and "serve_all d0 rs = (d, as)"
    and "organizer_findUnique_userId d (p_id usr) = Some org"
    and "ids = set (map event_id (filter (\<lambda>e. event_organizerId e = organizer_id org) (events d)))"
    and "b = length (filter (\<lambda>k. booking_eventId k \<in> ids) (bookings d))"
    and "a = length (filter (\<lambda>k. attendance_eventId k \<in> ids) (attendances d))"
  shows "\<exists>s. get_organizer_stats d usr = StatsJson s
             \<and> totalRegistrations s = b
             \<and> (b = 0 \<longrightarrow> attendanceRate s = 0)
             \<and> (0 < b \<longrightarrow>
                  attendanceRate s = js_mul (js_div (of_nat a) (of_nat b)) 100 \<and>
                  \<bar>attendanceRate s - of_nat a / of_nat b * 100\<bar>
                    \<le> of_nat a / of_nat b * 100 / 2 ^ 51)
             \<and> 0 \<le> attendanceRate s \<and> attendanceRate s \<le> 100"
proof -
  let ?rate = "if 0 < b then js_mul (js_div (of_nat a) (of_nat b)) 100 else 0"
  let ?s = "\<lparr>totalEvents = length (filter (\<lambda>e. event_organizerId e = organizer_id org) (events d)),
             totalRegistrations = b,
             totalRevenue = foldl (\<lambda>acc curr. acc + 100) 0
                              (filter (\<lambda>k. booking_eventId k \<in> ids) (bookings d)),
             attendanceRate = ?rate\<rparr>"
  have ans: "get_organizer_stats d usr = StatsJson ?s"
    by (simp add: get_organizer_stats_def assms(3,4,5,6) Let_def)
  have inv: "store_inv d" using assms(1,2) by (rule serve_all_store_inv)
  have le: "a \<le> b" unfolding assms(5,6) using inv by (rule attendance_le_bookings)
  have bounds: "0 \<le> ?rate \<and> ?rate \<le> 100"
    using rate_bounds [OF le] by simp
  have err: "0 < b \<longrightarrow> \<bar>?rate - of_nat a / of_nat b * 100\<bar> \<le> of_nat a / of_nat b * 100 / 2 ^ 51"
    using rate_error [of b a] by simp
  show ?thesis
    using ans bounds err by (intro exI [of _ ?s]) simp
qed

theorem attendance_rate_witness:
  "store_inv demo_stats_before
   \<and> serve_all demo_stats_before [Scan demo_organizer_user ''t08'' 9 True (Some ''a5'')] =
       (demo_stats_db, [ScanJson True (Some \<lparr>student_id = ''s1'', student_userId = ''u1''\<rparr>)])
   \<and> organizer_findUnique_userId demo_stats_db (p_id demo_organizer_user) =
       Some \<lparr>organizer_id = ''o1'', organizer_userId = ''u2''\<rparr>
   \<and> length (filter (\<lambda>k. booking_eventId k \<in> {''e1'', ''e2''}) (bookings demo_stats_db)) = 10
   \<and> length (filter (\<lambda>k. attendance_eventId k \<in> {''e1'', ''e2''}) (attendances demo_stats_db)) = 4
   \<and> get_organizer_stats demo_stats_db demo_organizer_user =
       StatsJson \<lparr>totalEvents = 2, totalRegistrations = 10, totalRevenue = 1000,
                   attendanceRate = 40\<rparr>
   \<and> (\<exists>s. get_organizer_stats demo_stats_db demo_organizer_user = StatsJson s
          \<and> attendanceRate s = js_mul (js_div 4 10) 100
          \<and> 0 \<le> attendanceRate s \<and> attendanceRate s \<le> 100)"
proof -
  have org: "organizer_findUnique_userId demo_stats_db (p_id demo_organizer_user) =
       Some \<lparr>organizer_id = ''o1'', organizer_userId = ''u2''\<rparr>"
    by (simp add: organizer_findUnique_userId_def demo_stats_db_def demo_stats_before_def
        demo_organizer_user_def)
  have ids: "{''e1'', ''e2''} = set (map event_id (filter (\<lambda>e. event_organizerId e =
       organizer_id \<lparr>organizer_id = ''o1'', organizer_userId = ''u2''\<rparr>) (events demo_stats_db)))"
    by (simp add: demo_stats_db_def demo_stats_before_def)
  have b: "10 = length (filter (\<lambda>k. booking_eventId k \<in> {''e1'', ''e2''}) (bookings demo_stats_db))"
    by (simp add: demo_stats_db_def demo_stats_before_def)
  have a: "4 = length (filter (\<lambda>k. attendance_eventId k \<in> {''e1'', ''e2''})
                 (attendances demo_stats_db))"
    by (simp add: demo_stats_db_def demo_stats_before_def)
  from attendance_rate [OF demo_stats_inv demo_stats_run org ids b a]
  have "\<exists>s. get_organizer_stats demo_stats_db demo_organizer_user = StatsJson s
          \<and> attendanceRate s = js_mul (js_div 4 10) 100
          \<and> 0 \<le> attendanceRate s \<and> attendanceRate s \<le> 100"
    by auto
  then show ?thesis
    using demo_stats_inv demo_stats_run org a [symmetric] b [symmetric] demo_stats_answer
    by simp
qed

section \<open>Two scans of one ticket in flight\<close>

text \<open>
  Run without interruption, the three steps of a scan are the handler as defined above.
\<close>

lemma scan_steps_serial:
  "scan_step k (scan_step k (scan_step k (d, Received))) =
     (case post_organizer_scan d (task_user k) (task_ticketId k) (task_now k) (task_upd_ok k)
             (task_att_reply k) of (d', r) \<Rightarrow> (d', Finished r))"
  by (auto simp: post_organizer_scan_def split: option.splits)

lemma rate_2_of_1: "js_mul (js_div 2 1) 100 = 200"
proof -
  have "to_double (of_int (2 ^ 52) * 2 powi (- 51)) = of_int (2 ^ 52) * 2 powi (- 51)"
    by (rule to_double_exact) simp_all
  then have two: "to_double 2 = 2" by (simp add: power_int_minus)
  have "to_double (of_int (200 * 2 ^ 45) * 2 powi (- 45)) = of_int (200 * 2 ^ 45) * 2 powi (- 45)"
    by (rule to_double_exact) simp_all
  then have "to_double 200 = 200" by (simp add: power_int_minus)
  then show ?thesis by (simp add: js_mul_def js_div_def two)
qed

text \<open>
  Claim C8. The read of the scanned flag and its update are two separate store calls.
  When two scans of the same unscanned ticket alternate, both read the flag before either
  sets it: both answer success and two attendance rows are written for the one booking.
  This holds for every store and every ticket that is not yet scanned.
\<close>

theorem alternating_scans:
  assumes "p_role (task_user k1) = ''ORGANIZER''" and "p_role (task_user k2) = ''ORGANIZER''"
    and "task_ticketId k1 = i" and "task_ticketId k2 = i"
    and "ticket_findUnique d i = Some tk" and "\<not> ticket_isScanned tk"
    and "booking_findUnique d (ticket_bookingId tk) = Some bk"
    and "task_upd_ok k1" and "task_upd_ok k2"
    and "task_att_reply k1 = Some a1" and "task_att_reply k2 = Some a2"
    and "a1 \<notin> attendance_id ` set (attendances d)"
    and "a2 \<notin> attendance_id ` set (attendances d)" and "a1 \<noteq> a2"
  shows "\<exists>d'. interleave k1 k2 [True, False, True, False, True, False] (d, Received, Received) =
           (d', Finished (ScanJson True (student_findUnique d (booking_studentId bk))),
                Finished (ScanJson True (student_findUnique d (booking_studentId bk))))
         \<and> attendances d' = attendances d @
             [\<lparr>attendance_id = a1, attendance_studentId = booking_studentId bk,
               attendance_eventId = booking_eventId bk\<rparr>,
              \<lparr>attendance_id = a2, attendance_studentId = booking_studentId bk,
               attendance_eventId = booking_eventId bk\<rparr>]"
proof -
  let ?u1 = "\<lambda>t. if ticket_id t = i
               then t\<lparr>ticket_isScanned := True, ticket_scannedAt := Some (task_now k1)\<rparr> else t"
  let ?d1 = "d\<lparr>tickets := map ?u1 (tickets d)\<rparr>"
  have f1: "ticket_findUnique ?d1 i \<noteq> None"
    using assms(5) by (simp add: ticket_findUnique_def find_map_same_id)
  show ?thesis
    using assms f1
    by (simp add: ticket_update_def attendance_create_def Let_def)
qed

text \<open>
  On the example store: the alternating schedule ends with two successes, two attendance
  rows for the one booking and an attendance rate of 200, while the same two scans served
  one after the other end with one success and "Ticket already scanned".
\<close>

theorem concurrent_scans_both_succeed:
  "interleave demo_scan1 demo_scan2 [True, False, True, False, True, False]
     (demo_db, Received, Received) =
     (demo_db_twice,
      Finished (ScanJson True (Some \<lparr>student_id = ''s1'', student_userId = ''u1''\<rparr>)),
      Finished (ScanJson True (Some \<lparr>student_id = ''s1'', student_userId = ''u1''\<rparr>)))
   \<and> length (attendances demo_db_twice) = 2
   \<and> get_organizer_stats demo_db_twice demo_organizer_user =
       StatsJson \<lparr>totalEvents = 1, totalRegistrations = 1, totalRevenue = 100,
                   attendanceRate = 200\<rparr>
   \<and> interleave demo_scan1 demo_scan2 [True, True, True, False, False, False]
     (demo_db, Received, Received) =
     (demo_db_scanned,
      Finished (ScanJson True (Some \<lparr>student_id = ''s1'', student_userId = ''u1''\<rparr>)),
      Finished (JsonError 400 ''Ticket already scanned''))"
proof -
  have tk: "ticket_findUnique demo_db ''t1'' = Some (hd (tickets demo_db))"
    and un: "\<not> ticket_isScanned (hd (tickets demo_db))"
    and bk: "booking_findUnique demo_db (ticket_bookingId (hd (tickets demo_db))) =
               Some (hd (bookings demo_db))"
    by (simp_all add: demo_defs store_defs)
  have tasks: "p_role (task_user demo_scan1) = ''ORGANIZER''"
    "p_role (task_user demo_scan2) = ''ORGANIZER''"
    "task_ticketId demo_scan1 = ''t1''" "task_ticketId demo_scan2 = ''t1''"
    "task_upd_ok demo_scan1" "task_upd_ok demo_scan2"
    "task_att_reply demo_scan1 = Some ''a1''" "task_att_reply demo_scan2 = Some ''a2''"
    by (simp_all add: demo_scan1_def demo_scan2_def demo_defs)
  have fresh: "''a1'' \<notin> attendance_id ` set (attendances demo_db)"
    "''a2'' \<notin> attendance_id ` set (attendances demo_db)" "''a1'' \<noteq> ''a2''"
    by (simp_all add: demo_defs)
  from alternating_scans [OF tasks(1,2,3,4) tk un bk tasks(5,6,7,8) fresh]
  obtain d' where both:
    "interleave demo_scan1 demo_scan2 [True, False, True, False, True, False]
       (demo_db, Received, Received) =
       (d', Finished (ScanJson True
                (student_findUnique demo_db (booking_studentId (hd (bookings demo_db))))),
            Finished (ScanJson True
                (student_findUnique demo_db (booking_studentId (hd (bookings demo_db))))))"
    by blast
  have race: "interleave demo_scan1 demo_scan2 [True, False, True, False, True, False]
     (demo_db, Received, Received) =
     (demo_db_twice,
      Finished (ScanJson True (Some \<lparr>student_id = ''s1'', student_userId = ''u1''\<rparr>)),
      Finished (ScanJson True (Some \<lparr>student_id = ''s1'', student_userId = ''u1''\<rparr>)))"
    by (simp add: demo_scan1_def demo_scan2_def demo_db_twice_def demo_defs store_defs)
  have rate: "get_organizer_stats demo_db_twice demo_organizer_user =
       StatsJson \<lparr>totalEvents = 1, totalRegistrations = 1, totalRevenue = 100,
                   attendanceRate = 200\<rparr>"
    by (simp add: get_organizer_stats_def demo_db_twice_def demo_defs
        organizer_findUnique_userId_def Let_def rate_2_of_1)
  have serial: "interleave demo_scan1 demo_scan2 [True, True, True, False, False, False]
     (demo_db, Received, Received) =
     (demo_db_scanned,
      Finished (ScanJson True (Some \<lparr>student_id = ''s1'', student_userId = ''u1''\<rparr>)),
      Finished (JsonError 400 ''Ticket already scanned''))"
    by (simp add: demo_scan1_def demo_scan2_def demo_defs store_defs)
  have "length (attendances demo_db_twice) = 2"
    by (simp add: demo_db_twice_def)
  then show ?thesis using both race rate serial by simp
qed

end
